theory Spec2Isabelle
  imports Complex_Main
begin

section \<open>IEEE-754 binary64 arithmetic, as the C++ type \<open>double\<close> uses it\<close>

text \<open>
  The two programs compute with \<open>double\<close>. A value of that type is a NaN, a signed
  infinity, or a finite number given by its sign bit and its magnitude (so that the two
  zeros are different values). The magnitude of a finite double is a multiple
  \<open>n * 2^k\<close> of a power of two with \<open>n < 2^53\<close> and \<open>-1074 \<le> k \<le> 971\<close>.
  The sign is \<open>True\<close> for a negative number.
\<close>

datatype double = NaN | Infty bool | Fin bool real

text \<open>Binary logarithm of a positive real, rounded down, by repeated halving or doubling.\<close>

function ilog2_up :: "real \<Rightarrow> int" where
  "ilog2_up q = (if q < 2 then 0 else ilog2_up (q / 2) + 1)"
  by pat_completeness auto
termination
  by (relation "measure (\<lambda>q. nat \<lfloor>q\<rfloor>)") (auto simp: floor_less_iff, linarith)

function ilog2_down :: "real \<Rightarrow> int" where
  "ilog2_down q = (if q \<le> 0 \<or> 1 \<le> q then 0 else ilog2_down (q * 2) - 1)"
  by pat_completeness auto
termination
proof (relation "measure (\<lambda>q. nat \<lceil>1 / q\<rceil>)")
  show "wf (measure (\<lambda>q::real. nat \<lceil>1 / q\<rceil>))" by simp
next
  fix q :: real
  assume "\<not> (q \<le> 0 \<or> 1 \<le> q)"
  then have q: "0 < q" "q < 1" by auto
  define t where "t = 1 / q"
  have t: "1 < t" using q by (simp add: t_def)
  have h: "1 / (q * 2) = t / 2" by (simp add: t_def)
  have "\<lceil>t / 2\<rceil> < \<lceil>t\<rceil>"
  proof (cases "2 \<le> t")
    case True
    have "real_of_int \<lceil>t / 2\<rceil> < t / 2 + 1" by linarith
    also have "\<dots> \<le> t" using True by simp
    also have "\<dots> \<le> real_of_int \<lceil>t\<rceil>" by linarith
    finally show ?thesis by linarith
  next
    case False
    then have "\<lceil>t / 2\<rceil> \<le> 1" using t by (simp add: ceiling_le_iff)
    moreover have "2 \<le> \<lceil>t\<rceil>" using t by linarith
    ultimately show ?thesis by linarith
  qed
  moreover have "0 < \<lceil>t\<rceil>" using t by linarith
  ultimately show "(q * 2, q) \<in> measure (\<lambda>q. nat \<lceil>1 / q\<rceil>)"
    by (simp add: h t_def [symmetric])
qed

declare ilog2_up.simps [simp del] ilog2_down.simps [simp del]

definition ilog2 :: "real \<Rightarrow> int" where
  "ilog2 q = (if 1 \<le> q then ilog2_up q else ilog2_down q)"

text \<open>
  The exponent of the last mantissa bit for a magnitude \<open>q\<close>: 52 binary places below the
  leading bit, and never below the subnormal spacing \<open>2^-1074\<close>.
\<close>

definition qexp :: "real \<Rightarrow> int" where
  "qexp q = max (ilog2 q - 52) (- 1074)"

text \<open>Rounding a real to the nearest integer, a tie going to the even neighbour.\<close>

definition rhe :: "real \<Rightarrow> int" where
  "rhe t = (let f = \<lfloor>t\<rfloor>; r = t - of_int f in
     if r < 1 / 2 then f else if 1 / 2 < r then f + 1 else if even f then f else f + 1)"

text \<open>
  Round to nearest, ties to even (the default rounding direction): the magnitude is
  rounded to a multiple of its spacing; a result that reaches \<open>2^1024\<close> overflows.
\<close>

definition round_mag :: "real \<Rightarrow> real option" where
  "round_mag q = (let k = qexp q; v = of_int (rhe (q / 2 powi k)) * 2 powi k in
     if 2 ^ 1024 \<le> v then None else Some v)"

definition rnd :: "bool \<Rightarrow> real \<Rightarrow> double" where
  "rnd s q = (case round_mag q of None \<Rightarrow> Infty s | Some v \<Rightarrow> Fin s v)"

definition sval :: "bool \<Rightarrow> real \<Rightarrow> real" where
  "sval s m = (if s then - m else m)"

text \<open>
  The operators \<open>+\<close> and \<open>*\<close> on \<open>double\<close>, with the special cases of IEEE 754.
  Each operator rounds its exact result once, to binary64 (the product in
  \<open>x += distance * cos(angle)\<close> is rounded before the sum: no fused multiply-add and
  no wider intermediate format). An exact zero sum is \<open>-0\<close> only when both terms are
  negative; a product has the exclusive or of the signs.
\<close>

fun fadd :: "double \<Rightarrow> double \<Rightarrow> double" where
  "fadd NaN _ = NaN"
| "fadd _ NaN = NaN"
| "fadd (Infty s) (Infty t) = (if s = t then Infty s else NaN)"
| "fadd (Infty s) (Fin _ _) = Infty s"
| "fadd (Fin _ _) (Infty t) = Infty t"
| "fadd (Fin s a) (Fin t b) =
     (let r = sval s a + sval t b in
      if r = 0 then Fin (s \<and> t) 0 else rnd (r < 0) \<bar>r\<bar>)"

fun fmul :: "double \<Rightarrow> double \<Rightarrow> double" where
  "fmul NaN _ = NaN"
| "fmul _ NaN = NaN"
| "fmul (Infty s) (Infty t) = Infty (s \<noteq> t)"
| "fmul (Infty s) (Fin t b) = (if b = 0 then NaN else Infty (s \<noteq> t))"
| "fmul (Fin s a) (Infty t) = (if a = 0 then NaN else Infty (s \<noteq> t))"
| "fmul (Fin s a) (Fin t b) = rnd (s \<noteq> t) (a * b)"

text \<open>Unary minus flips the sign bit.\<close>

fun fneg :: "double \<Rightarrow> double" where
  "fneg NaN = NaN"
| "fneg (Infty s) = Infty (\<not> s)"
| "fneg (Fin s a) = Fin (\<not> s) a"

text \<open>Classification, and the real number a finite double stands for.\<close>

fun is_finite :: "double \<Rightarrow> bool" where
  "is_finite (Fin _ _) = True"
| "is_finite _ = False"

fun is_nan :: "double \<Rightarrow> bool" where
  "is_nan NaN = True"
| "is_nan _ = False"

fun is_zero :: "double \<Rightarrow> bool" where
  "is_zero (Fin _ a) = (a = 0)"
| "is_zero _ = False"

fun valof :: "double \<Rightarrow> real" where
  "valof (Fin s a) = sval s a"
| "valof _ = 0"

text \<open>
  Which values of the datatype are doubles: every NaN and infinity, and the finite
  values whose magnitude is not negative and is left alone by rounding.
\<close>

fun is_double :: "double \<Rightarrow> bool" where
  "is_double (Fin s a) = (0 \<le> a \<and> round_mag a = Some a)"
| "is_double _ = True"

definition DBL_MAX :: double where
  "DBL_MAX = Fin False (2 ^ 1024 - 2 ^ 971)"

text \<open>The smallest positive double (\<open>DBL_TRUE_MIN\<close>, \<open>2^-1074\<close>).\<close>

definition DBL_TRUE_MIN :: double where
  "DBL_TRUE_MIN = Fin False (2 powi - 1074)"

text \<open>The literals of the programs: \<open>0\<close> (converted to \<open>double\<close>), \<open>1.0\<close> and \<open>0.5\<close>.\<close>

definition d0 :: double where "d0 = Fin False 0"
definition d1 :: double where "d1 = Fin False 1"
definition d_half :: double where "d_half = Fin False (1 / 2)"

section \<open>The library functions the programs call\<close>

text \<open>
  \<open>cos\<close> and \<open>sin\<close> come from the C mathematical library, which is not part of the
  repository: the model takes them as a parameter. Project -1 calls \<open>cos(angle)\<close> and
  project 4 calls \<open>std::cos(angle)\<close>; with an argument of type \<open>double\<close> both are the
  C library's \<open>double cos(double)\<close>, and likewise for \<open>sin\<close>.
\<close>

record libm =
  lm_cos :: "double \<Rightarrow> double"
  lm_sin :: "double \<Rightarrow> double"

text \<open>
  What is assumed of a library where a theorem says so: the special values that Annex F
  of ISO C fixes (\<open>cos(\<plusminus>0) = 1\<close>, \<open>sin(\<plusminus>0) = \<plusminus>0\<close>, a NaN for an infinite
  or NaN argument), and a finite result of magnitude at most 1 for a finite argument.
\<close>

definition libm_ok :: "libm \<Rightarrow> bool" where
  "libm_ok lm \<longleftrightarrow>
     (\<forall>s. lm_cos lm (Fin s 0) = Fin False 1) \<and>
     (\<forall>s. lm_sin lm (Fin s 0) = Fin s 0) \<and>
     (\<forall>a. \<not> is_finite a \<longrightarrow> lm_cos lm a = NaN \<and> lm_sin lm a = NaN) \<and>
     (\<forall>a. is_finite a \<longrightarrow>
        is_finite (lm_cos lm a) \<and> is_double (lm_cos lm a) \<and> \<bar>valof (lm_cos lm a)\<bar> \<le> 1 \<and>
        is_finite (lm_sin lm a) \<and> is_double (lm_sin lm a) \<and> \<bar>valof (lm_sin lm a)\<bar> \<le> 1)"

text \<open>A library that returns the correctly rounded cosine and sine.\<close>

fun cr_cos :: "double \<Rightarrow> double" where
  "cr_cos (Fin s a) = rnd (cos (sval s a) < 0) \<bar>cos (sval s a)\<bar>"
| "cr_cos _ = NaN"

fun cr_sin :: "double \<Rightarrow> double" where
  "cr_sin (Fin s a) =
     (if a = 0 then Fin s 0 else rnd (sin (sval s a) < 0) \<bar>sin (sval s a)\<bar>)"
| "cr_sin _ = NaN"

definition cr_libm :: libm where
  "cr_libm = \<lparr>lm_cos = cr_cos, lm_sin = cr_sin\<rparr>"

text \<open>
  \<open>std::cout << v\<close> for a \<open>double\<close> with the stream's default flags and precision is
  the conversion \<open>%g\<close> of \<open>printf\<close> with precision 6: six significant decimal digits,
  fixed notation when the decimal exponent is in \<open>-4 .. 5\<close> and exponent notation
  otherwise, trailing zeros and a trailing decimal point removed. The text of a NaN or
  an infinity is the platform's. The model has a single NaN, without sign or payload, and
  writes it as the C library of the GNU system writes the NaN that an invalid operation
  (\<open>0 * inf\<close>, \<open>inf - inf\<close>, \<open>cos(inf)\<close>) produces on x86-64, whose sign bit is set:
  \<open>-nan\<close>. (A NaN passed in with a clear sign bit would be written \<open>nan\<close> there; the
  model does not tell the two apart.) Infinities are written \<open>inf\<close> and \<open>-inf\<close>.
\<close>

function ilog10_up :: "real \<Rightarrow> int" where
  "ilog10_up q = (if q < 10 then 0 else ilog10_up (q / 10) + 1)"
  by pat_completeness auto
termination
  by (relation "measure (\<lambda>q. nat \<lfloor>q\<rfloor>)") (auto simp: floor_less_iff, linarith)

function ilog10_down :: "real \<Rightarrow> int" where
  "ilog10_down q = (if q \<le> 0 \<or> 1 \<le> q then 0 else ilog10_down (q * 10) - 1)"
  by pat_completeness auto
termination
proof (relation "measure (\<lambda>q. nat \<lceil>1 / q\<rceil>)")
  show "wf (measure (\<lambda>q::real. nat \<lceil>1 / q\<rceil>))" by simp
next
  fix q :: real
  assume "\<not> (q \<le> 0 \<or> 1 \<le> q)"
  then have q: "0 < q" "q < 1" by auto
  define t where "t = 1 / q"
  have t: "1 < t" using q by (simp add: t_def)
  have h: "1 / (q * 10) = t / 10" by (simp add: t_def)
  have "\<lceil>t / 10\<rceil> < \<lceil>t\<rceil>"
  proof (cases "2 \<le> t")
    case True
    have "real_of_int \<lceil>t / 10\<rceil> < t / 10 + 1" by linarith
    also have "\<dots> \<le> t" using True by simp
    also have "\<dots> \<le> real_of_int \<lceil>t\<rceil>" by linarith
    finally show ?thesis by linarith
  next
    case False
    then have "\<lceil>t / 10\<rceil> \<le> 1" using t by (simp add: ceiling_le_iff)
    moreover have "2 \<le> \<lceil>t\<rceil>" using t by linarith
    ultimately show ?thesis by linarith
  qed
  moreover have "0 < \<lceil>t\<rceil>" using t by linarith
  ultimately show "(q * 10, q) \<in> measure (\<lambda>q. nat \<lceil>1 / q\<rceil>)"
    by (simp add: h t_def [symmetric])
qed

declare ilog10_up.simps [simp del] ilog10_down.simps [simp del]

definition ilog10 :: "real \<Rightarrow> int" where
  "ilog10 q = (if 1 \<le> q then ilog10_up q else ilog10_down q)"

definition digit_char :: "nat \<Rightarrow> char" where
  "digit_char d = ''0123456789'' ! d"

definition digits :: "nat list \<Rightarrow> string" where
  "digits ds = map digit_char ds"

definition strip_zeros :: "nat list \<Rightarrow> nat list" where
  "strip_zeros ds = rev (dropWhile (\<lambda>d. d = 0) (rev ds))"

definition frac_text :: "nat list \<Rightarrow> string" where
  "frac_text fs = (let g = strip_zeros fs in if g = [] then [] else ''.'' @ digits g)"

text \<open>The exponent of the exponent notation: a sign and at least two digits.\<close>

definition exp_text :: "int \<Rightarrow> string" where
  "exp_text e = (let n = nat \<bar>e\<bar> in
     ''e'' @ (if e < 0 then ''-'' else ''+'') @
     (if n < 100 then digits [n div 10, n mod 10]
      else digits [n div 100, n div 10 mod 10, n mod 10]))"

definition show_mag :: "real \<Rightarrow> string" where
  "show_mag v =
     (if v = 0 then ''0''
      else
        let e0 = ilog10 v;
            n0 = nat (rhe (v / 10 powi (e0 - 5)));
            e = (if n0 = 10 ^ 6 then e0 + 1 else e0);
            n = (if n0 = 10 ^ 6 then 10 ^ 5 else n0);
            ds = map (\<lambda>i. n div 10 ^ (5 - i) mod 10) [0..<6]
        in if - 4 \<le> e \<and> e < 6 then
             (if 0 \<le> e then digits (take (nat e + 1) ds) @ frac_text (drop (nat e + 1) ds)
              else ''0'' @ frac_text (map (\<lambda>i. 0) [0..<nat (- e - 1)] @ ds))
           else digits (take 1 ds) @ frac_text (drop 1 ds) @ exp_text e)"

fun show_double :: "double \<Rightarrow> string" where
  "show_double NaN = ''-nan''"
| "show_double (Infty s) = (if s then ''-inf'' else ''inf'')"
| "show_double (Fin s a) = (if s then ''-'' else []) @ show_mag a"

text \<open>
  The precision of \<open>std::cout\<close> is state of the stream that \<open>operator<<\<close> reads. It is
  6 unless a caller sets it (\<open>std::cout.precision(p)\<close>), which neither program does. The
  conversion at any precision \<open>p\<close> of the stream, \<open>%.pg\<close> (a precision 0 counts as 1), with
  the other parts of the stream's state (format flags, width, fill, locale) at their
  defaults:
\<close>

definition show_mag_prec :: "nat \<Rightarrow> real \<Rightarrow> string" where
  "show_mag_prec p v =
     (if v = 0 then ''0''
      else
        let P = max p 1;
            e0 = ilog10 v;
            n0 = nat (rhe (v / 10 powi (e0 - int P + 1)));
            e = (if n0 = 10 ^ P then e0 + 1 else e0);
            n = (if n0 = 10 ^ P then 10 ^ (P - 1) else n0);
            ds = map (\<lambda>i. n div 10 ^ (P - 1 - i) mod 10) [0..<P]
        in if - 4 \<le> e \<and> e < int P then
             (if 0 \<le> e then digits (take (nat e + 1) ds) @ frac_text (drop (nat e + 1) ds)
              else ''0'' @ frac_text (map (\<lambda>i. 0) [0..<nat (- e - 1)] @ ds))
           else digits (take 1 ds) @ frac_text (drop 1 ds) @ exp_text e)"

fun show_double_prec :: "nat \<Rightarrow> double \<Rightarrow> string" where
  "show_double_prec p NaN = ''-nan''"
| "show_double_prec p (Infty s) = (if s then ''-inf'' else ''inf'')"
| "show_double_prec p (Fin s a) = (if s then ''-'' else []) @ show_mag_prec p a"

section \<open>The class \<open>Robot\<close>\<close>

text \<open>
  \<^verbatim>\<open>class Robot { public: double x, y, angle;
    Robot(double x = 0, double y = 0, double angle = 0) : x(x), y(y), angle(angle) {} ... };\<close>
  The class is the same text in both projects, up to the qualification of \<open>cos\<close> and
  \<open>sin\<close>. The constructor stores its arguments as they are (an omitted argument is 0;
  both programs pass all three). Standard output is the list of the lines written so far (each ended by
  \<open>std::endl\<close>); a method takes the object and the output and returns both.
\<close>

record robot =
  x :: double
  y :: double
  angle :: double

type_synonym console = "string list"

definition Robot :: "double \<Rightarrow> double \<Rightarrow> double \<Rightarrow> robot" where
  "Robot a b c = \<lparr>x = a, y = b, angle = c\<rparr>"

text \<open>Project -1 (\<open>src/projects/-1/robot_example.cpp\<close>).\<close>

definition move_pm1 :: "libm \<Rightarrow> double \<Rightarrow> robot \<times> console \<Rightarrow> robot \<times> console" where
  "move_pm1 lm distance st =
     (let (r, out) = st;
          r = r\<lparr>x := fadd (x r) (fmul distance (lm_cos lm (angle r)))\<rparr>;
          r = r\<lparr>y := fadd (y r) (fmul distance (lm_sin lm (angle r)))\<rparr>
      in (r, out @ [''Robot moved to ('' @ show_double (x r) @ '', '' @ show_double (y r) @ '')'']))"

definition rotate_pm1 :: "double \<Rightarrow> robot \<times> console \<Rightarrow> robot \<times> console" where
  "rotate_pm1 angle_change st =
     (let (r, out) = st;
          r = r\<lparr>angle := fadd (angle r) angle_change\<rparr>
      in (r, out @ [''Robot rotated to '' @ show_double (angle r) @ '' radians'']))"

text \<open>The entry point returns the exit code, and the model also the robot and the output.\<close>

definition main_pm1 :: "libm \<Rightarrow> int \<times> robot \<times> console" where
  "main_pm1 lm =
     (let out = [''Robot C++ Example''];
          st = (Robot d0 d0 d0, out);
          st = move_pm1 lm d1 st;
          st = rotate_pm1 d_half st
      in (0, st))"

text \<open>Project 4 (\<open>src/projects/4/robot_example.cpp\<close>).\<close>

definition move_p4 :: "libm \<Rightarrow> double \<Rightarrow> robot \<times> console \<Rightarrow> robot \<times> console" where
  "move_p4 lm distance st =
     (let (r, out) = st;
          r = r\<lparr>x := fadd (x r) (fmul distance (lm_cos lm (angle r)))\<rparr>;
          r = r\<lparr>y := fadd (y r) (fmul distance (lm_sin lm (angle r)))\<rparr>
      in (r, out @ [''Robot moved to ('' @ show_double (x r) @ '', '' @ show_double (y r) @ '')'']))"

definition rotate_p4 :: "double \<Rightarrow> robot \<times> console \<Rightarrow> robot \<times> console" where
  "rotate_p4 angle_change st =
     (let (r, out) = st;
          r = r\<lparr>angle := fadd (angle r) angle_change\<rparr>
      in (r, out @ [''Robot rotated to '' @ show_double (angle r) @ '' radians'']))"

definition main_p4 :: "libm \<Rightarrow> int \<times> robot \<times> console" where
  "main_p4 lm =
     (let out = [''My name is shayan''];
          st = (Robot d0 d0 d0, out)
      in (0, st))"

text \<open>
  The methods above are the methods as the two programs call them, with the stream in its
  default state. For a caller that has set the precision of \<open>std::cout\<close> to \<open>p\<close>, the
  same method bodies write their numbers at that precision (the methods read the
  precision and do not set it):
\<close>

definition move_pm1_prec ::
  "nat \<Rightarrow> libm \<Rightarrow> double \<Rightarrow> robot \<times> console \<Rightarrow> robot \<times> console" where
  "move_pm1_prec p lm distance st =
     (let (r, out) = st;
          r = r\<lparr>x := fadd (x r) (fmul distance (lm_cos lm (angle r)))\<rparr>;
          r = r\<lparr>y := fadd (y r) (fmul distance (lm_sin lm (angle r)))\<rparr>
      in (r, out @ [''Robot moved to ('' @ show_double_prec p (x r) @ '', '' @
                     show_double_prec p (y r) @ '')'']))"

definition rotate_pm1_prec :: "nat \<Rightarrow> double \<Rightarrow> robot \<times> console \<Rightarrow> robot \<times> console" where
  "rotate_pm1_prec p angle_change st =
     (let (r, out) = st;
          r = r\<lparr>angle := fadd (angle r) angle_change\<rparr>
      in (r, out @ [''Robot rotated to '' @ show_double_prec p (angle r) @ '' radians'']))"

definition move_p4_prec ::
  "nat \<Rightarrow> libm \<Rightarrow> double \<Rightarrow> robot \<times> console \<Rightarrow> robot \<times> console" where
  "move_p4_prec p lm distance st =
     (let (r, out) = st;
          r = r\<lparr>x := fadd (x r) (fmul distance (lm_cos lm (angle r)))\<rparr>;
          r = r\<lparr>y := fadd (y r) (fmul distance (lm_sin lm (angle r)))\<rparr>
      in (r, out @ [''Robot moved to ('' @ show_double_prec p (x r) @ '', '' @
                     show_double_prec p (y r) @ '')'']))"

definition rotate_p4_prec :: "nat \<Rightarrow> double \<Rightarrow> robot \<times> console \<Rightarrow> robot \<times> console" where
  "rotate_p4_prec p angle_change st =
     (let (r, out) = st;
          r = r\<lparr>angle := fadd (angle r) angle_change\<rparr>
      in (r, out @ [''Robot rotated to '' @ show_double_prec p (angle r) @ '' radians'']))"

text \<open>
  A call of one of the two methods, and a sequence of calls run in order, for the
  statements that speak of every sequence of calls.
\<close>

datatype call = Move double | Rotate double

fun call_pm1 :: "libm \<Rightarrow> call \<Rightarrow> robot \<times> console \<Rightarrow> robot \<times> console" where
  "call_pm1 lm (Move d) st = move_pm1 lm d st"
| "call_pm1 lm (Rotate d) st = rotate_pm1 d st"

fun call_p4 :: "libm \<Rightarrow> call \<Rightarrow> robot \<times> console \<Rightarrow> robot \<times> console" where
  "call_p4 lm (Move d) st = move_p4 lm d st"
| "call_p4 lm (Rotate d) st = rotate_p4 d st"

fun run_pm1 :: "libm \<Rightarrow> call list \<Rightarrow> robot \<times> console \<Rightarrow> robot \<times> console" where
  "run_pm1 lm [] st = st"
| "run_pm1 lm (c # cs) st = run_pm1 lm cs (call_pm1 lm c st)"

fun run_p4 :: "libm \<Rightarrow> call list \<Rightarrow> robot \<times> console \<Rightarrow> robot \<times> console" where
  "run_p4 lm [] st = st"
| "run_p4 lm (c # cs) st = run_p4 lm cs (call_p4 lm c st)"

section \<open>Properties of rounding and of the two operators\<close>

lemma powi_succ: "(2::real) powi (k + 1) = 2 * 2 powi k"
  by (simp add: power_int_add)

lemma powi_pred: "(2::real) powi (k - 1) = 2 powi k / 2"
  by (simp add: power_int_diff)

lemma ilog2_up_bounds:
  "1 \<le> q \<Longrightarrow> 2 powi ilog2_up q \<le> q \<and> q < 2 powi (ilog2_up q + 1)"
proof (induction q rule: ilog2_up.induct)
  case (1 q)
  show ?case
  proof (cases "q < 2")
    case True
    then show ?thesis using "1.prems" by (simp add: ilog2_up.simps [of q])
  next
    case False
    then have "1 \<le> q / 2" by simp
    with "1.IH" False have ih: "2 powi ilog2_up (q / 2) \<le> q / 2"
      "q / 2 < 2 powi (ilog2_up (q / 2) + 1)" by auto
    have e: "ilog2_up q = ilog2_up (q / 2) + 1" using False by (simp add: ilog2_up.simps [of q])
    have "2 powi (ilog2_up (q / 2) + 1) = 2 * (2::real) powi ilog2_up (q / 2)"
      "2 powi (ilog2_up (q / 2) + 1 + 1) = 2 * (2::real) powi (ilog2_up (q / 2) + 1)"
      by (rule powi_succ)+
    then show ?thesis using ih unfolding e by linarith
  qed
qed

lemma ilog2_down_bounds:
  "0 < q \<Longrightarrow> q < 1 \<Longrightarrow> 2 powi ilog2_down q \<le> q \<and> q < 2 powi (ilog2_down q + 1)"
proof (induction q rule: ilog2_down.induct)
  case (1 q)
  have e: "ilog2_down q = ilog2_down (q * 2) - 1"
    using "1.prems" by (simp add: ilog2_down.simps [of q])
  show ?case
  proof (cases "q * 2 < 1")
    case True
    with "1.IH" "1.prems" have ih: "2 powi ilog2_down (q * 2) \<le> q * 2"
      "q * 2 < 2 powi (ilog2_down (q * 2) + 1)" by auto
    have "2 powi (ilog2_down (q * 2) - 1) = (2::real) powi ilog2_down (q * 2) / 2"
      by (rule powi_pred)
    moreover have "2 powi (ilog2_down (q * 2) - 1 + 1) = (2::real) powi ilog2_down (q * 2)"
      by simp
    moreover have "2 powi (ilog2_down (q * 2) + 1) = 2 * (2::real) powi ilog2_down (q * 2)"
      by (rule powi_succ)
    ultimately show ?thesis using ih unfolding e by linarith
  next
    case False
    then have "ilog2_down (q * 2) = 0" by (simp add: ilog2_down.simps [of "q * 2"])
    then show ?thesis using False "1.prems" unfolding e by simp
  qed
qed

lemma ilog2_bounds:
  assumes "0 < q"
  shows "2 powi ilog2 q \<le> q" and "q < 2 powi (ilog2 q + 1)"
  using assms ilog2_up_bounds [of q] ilog2_down_bounds [of q]
  by (auto simp: ilog2_def)

lemma powi_mono: "a \<le> b \<Longrightarrow> (2::real) powi a \<le> 2 powi b"
  by (rule power_int_increasing) simp_all

lemma powi_less_imp: "(2::real) powi a < 2 powi b \<Longrightarrow> a < b"
  using powi_mono [of b a] by (cases "a < b") auto

lemma ilog2_mono:
  assumes "0 < a" "a \<le> b"
  shows "ilog2 a \<le> ilog2 b"
proof -
  have "2 powi ilog2 a < (2::real) powi (ilog2 b + 1)"
    using ilog2_bounds(1) [OF assms(1)] ilog2_bounds(2) [of b] assms by linarith
  then have "ilog2 a < ilog2 b + 1" by (rule powi_less_imp)
  then show ?thesis by linarith
qed

lemma rhe_error: "\<bar>of_int (rhe t) - t\<bar> \<le> 1 / 2"
  unfolding rhe_def Let_def by (auto; linarith)

lemma rhe_of_int: "rhe (of_int n) = n"
  by (simp add: rhe_def)

lemma rhe_le: "t \<le> of_int n \<Longrightarrow> rhe t \<le> n"
proof -
  assume a: "t \<le> of_int n"
  have "real_of_int (rhe t) \<le> t + 1 / 2" using rhe_error [of t] by linarith
  then have "real_of_int (rhe t) < of_int n + 1" using a by linarith
  then show ?thesis by linarith
qed

lemma rhe_ge: "of_int n \<le> t \<Longrightarrow> n \<le> rhe t"
proof -
  assume a: "of_int n \<le> t"
  have "t - 1 / 2 \<le> real_of_int (rhe t)" using rhe_error [of t] by linarith
  then have "of_int n - 1 < real_of_int (rhe t)" using a by linarith
  then show ?thesis by linarith
qed

lemma powi_pos: "0 < (2::real) powi k" by simp

lemma powi_add_nat: "0 \<le> d \<Longrightarrow> (2::real) powi (k + d) = 2 powi k * 2 ^ nat d"
  by (simp add: power_int_add power_int_nonneg_exp)

lemma qexp_ge: "- 1074 \<le> qexp q" "ilog2 q - 52 \<le> qexp q"
  by (simp_all add: qexp_def)

lemma qexp_mono: "0 < a \<Longrightarrow> a \<le> b \<Longrightarrow> qexp a \<le> qexp b"
  using ilog2_mono [of a b] by (simp add: qexp_def)

text \<open>The scaled magnitude lies below 2^53.\<close>

lemma scaled_less:
  assumes "0 < q"
  shows "q / 2 powi qexp q < 2 ^ 53"
proof -
  let ?k = "qexp q"
  have "ilog2 q + 1 \<le> ?k + 53" using qexp_ge(2) [of q] by linarith
  then have "(2::real) powi (ilog2 q + 1) \<le> 2 powi (?k + 53)" by (rule powi_mono)
  also have "\<dots> = 2 powi ?k * 2 ^ 53" using powi_add_nat [of 53 ?k] by simp
  finally have "q < 2 powi ?k * 2 ^ 53" using ilog2_bounds(2) [OF assms] by linarith
  then show ?thesis by (simp add: pos_divide_less_eq mult.commute)
qed

lemma scaled_ge_normal:
  assumes "0 < q" "qexp q = ilog2 q - 52"
  shows "2 ^ 52 \<le> q / 2 powi qexp q"
proof -
  let ?k = "qexp q"
  have "ilog2 q = ?k + 52" using assms(2) by linarith
  then have "(2::real) powi ilog2 q = 2 powi ?k * 2 ^ 52" using powi_add_nat [of 52 ?k] by simp
  then have "2 powi ?k * 2 ^ 52 \<le> q" using ilog2_bounds(1) [OF assms(1)] by linarith
  then show ?thesis by (simp add: pos_le_divide_eq mult.commute)
qed

lemma rhe_scaled_range:
  assumes "0 \<le> q"
  shows "0 \<le> rhe (q / 2 powi qexp q)" "rhe (q / 2 powi qexp q) \<le> 2 ^ 53"
proof -
  have "of_int 0 \<le> q / 2 powi qexp q" using assms by simp
  then show "0 \<le> rhe (q / 2 powi qexp q)" by (rule rhe_ge)
  show "rhe (q / 2 powi qexp q) \<le> 2 ^ 53"
  proof (cases "q = 0")
    case True
    then show ?thesis using rhe_of_int [of 0] by simp
  next
    case False
    then have "q / 2 powi qexp q \<le> of_int (2 ^ 53)" using scaled_less [of q] assms by simp
    then show ?thesis by (rule rhe_le)
  qed
qed

lemma round_mag_zero: "round_mag 0 = Some 0"
  using rhe_of_int [of 0] by (simp add: round_mag_def)

lemma round_mag_SomeD:
  assumes "round_mag q = Some v"
  shows "v = of_int (rhe (q / 2 powi qexp q)) * 2 powi qexp q" "v < 2 ^ 1024"
  using assms by (auto simp: round_mag_def Let_def split: if_splits)

lemma round_mag_nonneg:
  assumes "0 \<le> q" "round_mag q = Some v"
  shows "0 \<le> v"
proof -
  have "0 \<le> real_of_int (rhe (q / 2 powi qexp q))"
    using rhe_scaled_range(1) [OF assms(1)] by simp
  then show ?thesis unfolding round_mag_SomeD(1) [OF assms(2)] by simp
qed

lemma powi_div: "k \<le> j \<Longrightarrow> (2::real) powi j / 2 powi k = 2 ^ nat (j - k)"
  using power_int_diff [of "2::real" j k] by (simp add: power_int_nonneg_exp)

text \<open>Every number of the format is a fixed point of rounding.\<close>

lemma round_mag_repr:
  assumes "0 \<le> n" "n < 2 ^ 53" "- 1074 \<le> j" "j \<le> 971"
  shows "round_mag (of_int n * 2 powi j) = Some (of_int n * 2 powi j)"
proof (cases "n = 0")
  case True
  then show ?thesis by (simp add: round_mag_zero)
next
  case False
  define q :: real where "q = of_int n * 2 powi j"
  define k where "k = qexp q"
  have n1: "1 \<le> n" using assms(1) False by linarith
  have q: "0 < q" using n1 by (simp add: q_def)
  have "real_of_int n < 2 ^ 53" using assms(2) by (metis of_int_less_numeral_power_cancel_iff)
  then have qlt: "q < 2 ^ 53 * 2 powi j" by (simp add: q_def)
  also have "\<dots> = 2 powi (j + 53)" using powi_add_nat [of 53 j] by simp
  finally have "2 powi ilog2 q < (2::real) powi (j + 53)"
    using ilog2_bounds(1) [OF q] by linarith
  then have "ilog2 q < j + 53" by (rule powi_less_imp)
  then have kj: "k \<le> j" using assms(3) by (simp add: qexp_def k_def)
  have pj: "2 powi j = (2::real) powi k * 2 ^ nat (j - k)"
    using powi_add_nat [of "j - k" k] kj by simp
  have "q / 2 powi k = of_int n * (2 powi j / 2 powi k)" by (simp add: q_def)
  also have "\<dots> = of_int (n * 2 ^ nat (j - k))" by (simp add: powi_div [OF kj])
  finally have "rhe (q / 2 powi k) = n * 2 ^ nat (j - k)" by (simp only: rhe_of_int)
  then have "of_int (rhe (q / 2 powi k)) * 2 powi k
      = of_int n * ((2::real) powi k * 2 ^ nat (j - k))" by simp
  also have "\<dots> = q" unfolding pj [symmetric] q_def ..
  finally have v: "of_int (rhe (q / 2 powi k)) * 2 powi k = q" .
  have "2 powi j \<le> (2::real) powi 971" using assms(4) by (rule powi_mono)
  then have "2 ^ 53 * 2 powi j \<le> (2::real) ^ 53 * 2 ^ 971" by simp
  then have "q < 2 ^ 1024" using qlt by simp
  then have "round_mag q = Some q" using v by (simp add: round_mag_def Let_def k_def)
  then show ?thesis unfolding q_def .
qed

lemma qexp_cases: "qexp q = - 1074 \<or> qexp q = ilog2 q - 52"
  by (auto simp: qexp_def max_def)

lemma round_mag_format:
  assumes "0 \<le> q" "round_mag q = Some v"
  shows "\<exists>n j. 0 \<le> n \<and> n < 2 ^ 53 \<and> - 1074 \<le> j \<and> j \<le> 971 \<and> v = of_int n * 2 powi j"
proof -
  define k where "k = qexp q"
  define n where "n = rhe (q / 2 powi k)"
  have v: "v = of_int n * 2 powi k" and vlt: "v < 2 ^ 1024"
    using round_mag_SomeD [OF assms(2)] by (simp_all add: n_def k_def)
  have n0: "0 \<le> n" and n53: "n \<le> 2 ^ 53"
    using rhe_scaled_range [OF assms(1)] by (simp_all add: n_def k_def)
  have k0: "- 1074 \<le> k" using qexp_ge(1) [of q] by (simp add: k_def)
  show ?thesis
  proof (cases "n = 0")
    case True
    then have "v = of_int 0 * 2 powi 0" using v by simp
    then show ?thesis by (intro exI [of _ 0]) simp
  next
    case False
    then have n1: "1 \<le> n" using n0 by linarith
    have q: "0 < q"
    proof (rule ccontr)
      assume "\<not> 0 < q"
      then have "q = 0" using assms(1) by simp
      then have "n = 0" using rhe_of_int [of 0] by (simp add: n_def)
      then show False using False by simp
    qed
    have k971: "k \<le> 971"
    proof (rule ccontr)
      assume "\<not> k \<le> 971"
      then have k972: "972 \<le> k" by simp
      then have "qexp q = ilog2 q - 52" using qexp_cases [of q] by (auto simp: k_def)
      then have "of_int (2 ^ 52) \<le> q / 2 powi k" using scaled_ge_normal [OF q] by (simp add: k_def)
      then have "2 ^ 52 \<le> n" unfolding n_def by (rule rhe_ge)
      then have a: "(2::real) ^ 52 \<le> of_int n" by (metis of_int_numeral of_int_power of_int_le_iff)
      have b: "(2::real) powi 972 \<le> 2 powi k" using k972 by (rule powi_mono)
      have "(2::real) ^ 52 * 2 powi 972 \<le> of_int n * 2 powi k"
      proof (rule mult_mono [OF a b])
        show "0 \<le> real_of_int n" using n0 by simp
        show "0 \<le> (2::real) powi 972" by (rule less_imp_le [OF powi_pos])
      qed
      moreover have "(2::real) ^ 52 * 2 powi 972 = 2 ^ 1024" by simp
      ultimately have "2 ^ 1024 \<le> v" unfolding v by (simp only:)
      then show False using vlt by (rule leD [THEN notE])
    qed
    show ?thesis
    proof (cases "n = 2 ^ 53")
      case True
      have "2 powi (k + 1) = 2 * (2::real) powi k" by (rule powi_succ)
      then have v2: "v = of_int (2 ^ 52) * 2 powi (k + 1)" using v True by simp
      have "k + 1 \<le> 971"
      proof (rule ccontr)
        assume "\<not> k + 1 \<le> 971"
        then have "971 \<le> k" by simp
        then have "(2::real) powi 971 \<le> 2 powi k" by (rule powi_mono)
        then have "(2::real) ^ 53 * 2 powi 971 \<le> 2 ^ 53 * 2 powi k" by simp
        moreover have "(2::real) ^ 53 * 2 powi 971 = 2 ^ 1024" by simp
        moreover have "v = 2 ^ 53 * 2 powi k" using v True by simp
        ultimately have "2 ^ 1024 \<le> v" by (simp only:)
        then show False using vlt by (rule leD [THEN notE])
      qed
      then have k1: "k + 1 \<le> 971" .
      have k2: "- 1074 \<le> k + 1" using k0 by linarith
      have "(0::int) \<le> 2 ^ 52 \<and> (2::int) ^ 52 < 2 ^ 53" by simp
      then show ?thesis using v2 k1 k2 by blast
    next
      case False
      then have "n < 2 ^ 53" using n53 by simp
      then show ?thesis using n0 k0 k971 v by blast
    qed
  qed
qed

lemma round_mag_idem:
  assumes "0 \<le> q" "round_mag q = Some v"
  shows "round_mag v = Some v"
proof -
  obtain n j where "0 \<le> n" "n < 2 ^ 53" "- 1074 \<le> j" "j \<le> 971" "v = of_int n * 2 powi j"
    using round_mag_format [OF assms] by blast
  then show ?thesis using round_mag_repr [of n j] by simp
qed

lemma round_mag_le_fix:
  assumes "0 \<le> q" "q \<le> B" "round_mag B = Some B"
  shows "\<exists>v. round_mag q = Some v \<and> v \<le> B"
proof (cases "q = 0")
  case True
  then show ?thesis using assms round_mag_zero by simp
next
  case False
  then have q: "0 < q" using assms(1) by simp
  define k where "k = qexp q"
  define kB where "kB = qexp B"
  define nB where "nB = rhe (B / 2 powi kB)"
  have B: "B = of_int nB * 2 powi kB" and Blt: "B < 2 ^ 1024"
    using round_mag_SomeD [OF assms(3)] by (simp_all add: nB_def kB_def)
  have kk: "k \<le> kB" using qexp_mono [OF q assms(2)] by (simp add: k_def kB_def)
  have "B / 2 powi k = of_int nB * (2 powi kB / 2 powi k)" using B by simp
  also have "\<dots> = of_int (nB * 2 ^ nat (kB - k))" by (simp add: powi_div [OF kk])
  finally have Bk: "B / 2 powi k = of_int (nB * 2 ^ nat (kB - k))" .
  have "q / 2 powi k \<le> B / 2 powi k" using assms(2) by (simp add: divide_right_mono)
  then have "rhe (q / 2 powi k) \<le> nB * 2 ^ nat (kB - k)" unfolding Bk by (rule rhe_le)
  then have "real_of_int (rhe (q / 2 powi k)) \<le> B / 2 powi k" unfolding Bk by linarith
  then have le: "of_int (rhe (q / 2 powi k)) * 2 powi k \<le> B"
    by (simp add: pos_le_divide_eq)
  then have "\<not> 2 ^ 1024 \<le> real_of_int (rhe (q / 2 powi k)) * 2 powi k" using Blt by linarith
  then have "round_mag q = Some (of_int (rhe (q / 2 powi k)) * 2 powi k)"
    by (simp add: round_mag_def Let_def k_def)
  then show ?thesis using le by simp
qed

lemma round_mag_error:
  assumes "round_mag q = Some v"
  shows "\<bar>v - q\<bar> \<le> 2 powi qexp q / 2"
proof -
  define k where "k = qexp q"
  have v: "v = of_int (rhe (q / 2 powi k)) * 2 powi k"
    using round_mag_SomeD(1) [OF assms] by (simp add: k_def)
  have "v - q = (of_int (rhe (q / 2 powi k)) - q / 2 powi k) * 2 powi k"
    unfolding v by (simp add: algebra_simps)
  then have "\<bar>v - q\<bar> = \<bar>of_int (rhe (q / 2 powi k)) - q / 2 powi k\<bar> * 2 powi k"
    by (simp add: abs_mult)
  also have "\<dots> \<le> (1 / 2) * 2 powi k"
    using rhe_error [of "q / 2 powi k"] by (intro mult_right_mono) simp_all
  finally show ?thesis by (simp add: k_def)
qed

lemma qexp_spacing:
  assumes "0 < q"
  shows "2 powi qexp q \<le> max (q / 2 ^ 52) (2 powi - 1074)"
proof (cases "qexp q = - 1074")
  case True
  then show ?thesis by simp
next
  case False
  then have e: "qexp q = ilog2 q - 52" using qexp_cases [of q] by simp
  have "2 ^ 52 \<le> q / 2 powi qexp q" using scaled_ge_normal [OF assms e] .
  then have "2 ^ 52 * 2 powi qexp q \<le> q" by (simp add: pos_le_divide_eq)
  then have "2 powi qexp q \<le> q / 2 ^ 52" by (simp add: pos_le_divide_eq mult.commute)
  then show ?thesis by simp
qed

lemma rhe_half_up:
  assumes "of_int m - 1 / 2 \<le> t" "even m"
  shows "m \<le> rhe t"
proof (cases "of_int m \<le> t")
  case True
  then show ?thesis by (rule rhe_ge)
next
  case False
  then have f: "\<lfloor>t\<rfloor> = m - 1" using assms(1) by linarith
  have "odd (m - 1)" using assms(2) by simp
  then show ?thesis using assms(1) False unfolding rhe_def Let_def f by auto
qed

lemma rhe_below_half:
  assumes "t < of_int m - 1 / 2"
  shows "rhe t \<le> m - 1"
proof -
  have "real_of_int (rhe t) \<le> t + 1 / 2" using rhe_error [of t] by linarith
  then have "real_of_int (rhe t) < of_int m" using assms by linarith
  then show ?thesis by linarith
qed

lemma ilog2_less:
  assumes "0 < q" "q < 2 powi j"
  shows "ilog2 q < j"
proof -
  have "2 powi ilog2 q < (2::real) powi j" using ilog2_bounds(1) [OF assms(1)] assms(2) by linarith
  then show ?thesis by (rule powi_less_imp)
qed

lemma ilog2_ge:
  assumes "2 powi j \<le> q"
  shows "j \<le> ilog2 q"
proof -
  have q: "0 < q" using assms powi_pos [of j] by linarith
  have "2 powi j < (2::real) powi (ilog2 q + 1)" using ilog2_bounds(2) [OF q] assms by linarith
  then have "j < ilog2 q + 1" by (rule powi_less_imp)
  then show ?thesis by linarith
qed

text \<open>Below the threshold 2^1024 - 2^970 rounding gives a finite number.\<close>

lemma round_mag_finite:
  assumes "0 \<le> q" "q < 2 ^ 1024 - 2 ^ 970"
  shows "\<exists>v. round_mag q = Some v"
proof (cases "q = 0")
  case True
  then show ?thesis by (simp add: round_mag_zero)
next
  case False
  then have q: "0 < q" using assms(1) by simp
  define k where "k = qexp q"
  define n where "n = rhe (q / 2 powi k)"
  have n53: "n \<le> 2 ^ 53" using rhe_scaled_range(2) [OF assms(1)] by (simp add: n_def k_def)
  then have "real_of_int n \<le> real_of_int (2 ^ 53)" by (simp only: of_int_le_iff)
  then have n53r: "real_of_int n \<le> 2 ^ 53" by simp
  have "(2::real) ^ 1024 - 2 ^ 970 < 2 powi 1024" by simp
  with assms(2) have "q < 2 powi 1024" by (rule less_trans)
  then have "ilog2 q < 1024" by (rule ilog2_less [OF q])
  then have k971: "k \<le> 971" by (simp add: k_def qexp_def)
  have "real_of_int n * 2 powi k < 2 ^ 1024"
  proof (cases "k = 971")
    case True
    have "q / 2 powi 971 < (2 ^ 1024 - 2 ^ 970) / 2 powi 971"
      using assms(2) by (rule divide_strict_right_mono) simp
    also have "\<dots> = of_int (2 ^ 53) - 1 / 2" by simp
    finally have "n \<le> 2 ^ 53 - 1" unfolding n_def True by (rule rhe_below_half)
    then have "real_of_int n \<le> real_of_int (2 ^ 53 - 1)" by (simp only: of_int_le_iff)
    then have "real_of_int n \<le> 2 ^ 53 - 1" by simp
    then have "real_of_int n * 2 powi 971 \<le> (2 ^ 53 - 1) * 2 powi 971"
      by (rule mult_right_mono) simp
    also have "\<dots> < 2 ^ 1024" by simp
    finally show ?thesis unfolding True .
  next
    case False
    then have "k \<le> 970" using k971 by simp
    then have pk: "(2::real) powi k \<le> 2 powi 970" by (rule powi_mono)
    have "real_of_int n * 2 powi k \<le> 2 ^ 53 * 2 powi 970"
    proof (rule mult_mono [OF n53r pk])
      show "0 \<le> (2::real) ^ 53" by simp
      show "0 \<le> (2::real) powi k" by (rule less_imp_le [OF powi_pos])
    qed
    also have "\<dots> < 2 ^ 1024" by simp
    finally show ?thesis .
  qed
  then have "\<not> 2 ^ 1024 \<le> real_of_int n * 2 powi k" by (simp only: not_le)
  then show ?thesis by (simp add: round_mag_def Let_def n_def k_def)
qed

text \<open>From the threshold on rounding overflows.\<close>

lemma round_mag_overflow:
  assumes "2 ^ 1024 - 2 ^ 970 \<le> q"
  shows "round_mag q = None"
proof -
  define k where "k = qexp q"
  define n where "n = rhe (q / 2 powi k)"
  have "(2::real) powi 1023 \<le> 2 ^ 1024 - 2 ^ 970" by simp
  then have q1023: "2 powi 1023 \<le> q" using assms by (rule order_trans)
  then have e: "1023 \<le> ilog2 q" by (rule ilog2_ge)
  have q: "0 < q" using q1023 powi_pos [of 1023] by linarith
  have kn: "k = ilog2 q - 52" using e by (simp add: k_def qexp_def)
  have "2 ^ 1024 \<le> real_of_int n * 2 powi k"
  proof (cases "ilog2 q = 1023")
    case True
    then have k: "k = 971" using kn by simp
    have "(2 ^ 1024 - 2 ^ 970) / 2 powi 971 \<le> q / 2 powi 971"
      using assms by (rule divide_right_mono) simp
    moreover have "((2::real) ^ 1024 - 2 ^ 970) / 2 powi 971 = of_int (2 ^ 53) - 1 / 2" by simp
    ultimately have "of_int (2 ^ 53) - 1 / 2 \<le> q / 2 powi 971" by (simp only:)
    then have "2 ^ 53 \<le> n" unfolding n_def k by (rule rhe_half_up) simp
    then have "real_of_int (2 ^ 53) \<le> real_of_int n" by (simp only: of_int_le_iff)
    then have "real_of_int (2 ^ 53) * 2 powi 971 \<le> real_of_int n * 2 powi 971"
      by (rule mult_right_mono) simp
    moreover have "real_of_int (2 ^ 53) * 2 powi 971 = 2 ^ 1024" by simp
    ultimately show ?thesis unfolding k by (simp only:)
  next
    case False
    then have "972 \<le> k" using e kn by linarith
    then have b: "(2::real) powi 972 \<le> 2 powi k" by (rule powi_mono)
    have "of_int (2 ^ 52) \<le> q / 2 powi k"
      using scaled_ge_normal [OF q] kn by (simp add: k_def)
    then have "2 ^ 52 \<le> n" unfolding n_def by (rule rhe_ge)
    then have a: "real_of_int (2 ^ 52) \<le> real_of_int n" by (simp only: of_int_le_iff)
    have "real_of_int (2 ^ 52) * 2 powi 972 \<le> real_of_int n * 2 powi k"
    proof (rule mult_mono [OF a b])
      show "0 \<le> real_of_int n" using a by simp
      show "0 \<le> (2::real) powi 972" by (rule less_imp_le [OF powi_pos])
    qed
    moreover have "real_of_int (2 ^ 52) * 2 powi 972 = 2 ^ 1024" by simp
    ultimately show ?thesis by (simp only:)
  qed
  then show ?thesis by (simp add: round_mag_def Let_def n_def k_def)
qed

lemma round_mag_None_iff:
  assumes "0 \<le> q"
  shows "round_mag q = None \<longleftrightarrow> 2 ^ 1024 - 2 ^ 970 \<le> q"
proof
  assume "round_mag q = None"
  then show "2 ^ 1024 - 2 ^ 970 \<le> q"
    using round_mag_finite [OF assms] by (cases "q < 2 ^ 1024 - 2 ^ 970") auto
next
  assume "2 ^ 1024 - 2 ^ 970 \<le> q"
  then show "round_mag q = None" by (rule round_mag_overflow)
qed

lemma rnd_cases:
  assumes "0 \<le> q"
  shows "(q < 2 ^ 1024 - 2 ^ 970 \<and> (\<exists>v. rnd s q = Fin s v \<and> round_mag q = Some v \<and> 0 \<le> v)) \<or>
         (2 ^ 1024 - 2 ^ 970 \<le> q \<and> rnd s q = Infty s)"
proof (cases "q < 2 ^ 1024 - 2 ^ 970")
  case True
  then obtain v where v: "round_mag q = Some v" using round_mag_finite [OF assms] by blast
  then have "0 \<le> v" using round_mag_nonneg [OF assms] by simp
  then show ?thesis using True v by (simp add: rnd_def)
next
  case False
  then have "round_mag q = None" by (intro round_mag_overflow) simp
  then show ?thesis using False by (simp add: rnd_def)
qed

lemma rnd_not_nan: "rnd s q \<noteq> NaN"
  by (simp add: rnd_def split: option.splits)

lemma rnd_is_double: "0 \<le> q \<Longrightarrow> is_double (rnd s q)"
  using round_mag_idem [of q] round_mag_nonneg [of q]
  by (auto simp: rnd_def split: option.splits)

text \<open>
  The doubles of the model are the numbers of the binary64 format, and the two operators
  return doubles.
\<close>

lemma is_double_format:
  "is_double (Fin s a) \<longleftrightarrow>
     (\<exists>n j. 0 \<le> n \<and> n < 2 ^ 53 \<and> - 1074 \<le> j \<and> j \<le> 971 \<and> a = of_int n * 2 powi j)"
proof
  assume "is_double (Fin s a)"
  then have "0 \<le> a" "round_mag a = Some a" by simp_all
  then show "\<exists>n j. 0 \<le> n \<and> n < 2 ^ 53 \<and> - 1074 \<le> j \<and> j \<le> 971 \<and> a = of_int n * 2 powi j"
    by (rule round_mag_format)
next
  assume "\<exists>n j. 0 \<le> n \<and> n < 2 ^ 53 \<and> - 1074 \<le> j \<and> j \<le> 971 \<and> a = of_int n * 2 powi j"
  then obtain n j where nj: "0 \<le> n" "n < 2 ^ 53" "- 1074 \<le> j" "j \<le> 971"
    and a: "a = of_int n * 2 powi j" by blast
  have "0 \<le> a" unfolding a using nj(1) by simp
  then show "is_double (Fin s a)" using round_mag_repr [OF nj] by (simp add: a)
qed

lemma fadd_is_double: "is_double (fadd a b)"
proof (cases a; cases b)
  fix s m t n
  assume "a = Fin s m" "b = Fin t n"
  then show ?thesis using rnd_is_double [of "\<bar>sval s m + sval t n\<bar>"]
    by (simp add: Let_def round_mag_zero)
qed simp_all

lemma fmul_is_double: "is_double a \<Longrightarrow> is_double b \<Longrightarrow> is_double (fmul a b)"
proof (cases a; cases b)
  fix s m t n
  assume "a = Fin s m" "b = Fin t n" "is_double a" "is_double b"
  then show ?thesis using rnd_is_double [of "m * n"] by simp
qed simp_all

lemma fadd_nonfinite: "\<not> is_finite a \<or> \<not> is_finite b \<Longrightarrow> \<not> is_finite (fadd a b)"
  by (cases a; cases b) auto

lemma fmul_nonfinite: "\<not> is_finite a \<or> \<not> is_finite b \<Longrightarrow> \<not> is_finite (fmul a b)"
  by (cases a; cases b) auto

lemma fadd_finite_not_nan: "is_finite a \<Longrightarrow> is_finite b \<Longrightarrow> fadd a b \<noteq> NaN"
  by (cases a; cases b) (auto simp: Let_def rnd_not_nan)

lemma fmul_fneg: "fmul (fneg a) b = fneg (fmul a b)"
  by (cases a; cases b) (auto simp: rnd_def split: option.splits)

text \<open>A sum of finite doubles is finite exactly when the exact sum is below the threshold.\<close>

lemma fadd_finite_iff:
  assumes "is_finite a" "is_finite b"
  shows "is_finite (fadd a b) \<longleftrightarrow> \<bar>valof a + valof b\<bar> < 2 ^ 1024 - 2 ^ 970"
proof -
  obtain s m t n where ab: "a = Fin s m" "b = Fin t n"
    using assms by (cases a; cases b) auto
  define r where "r = sval s m + sval t n"
  show ?thesis
  proof (cases "r = 0")
    case True
    then show ?thesis by (simp add: ab r_def [symmetric] Let_def)
  next
    case False
    have "is_finite (rnd (r < 0) \<bar>r\<bar>) \<longleftrightarrow> \<bar>r\<bar> < 2 ^ 1024 - 2 ^ 970"
      using rnd_cases [of "\<bar>r\<bar>" "r < 0"] by auto
    then show ?thesis using False by (simp add: ab r_def [symmetric] Let_def)
  qed
qed

lemmas round_eval = round_mag_def rhe_def qexp_def ilog2_def ilog2_up.simps ilog2_down.simps Let_def

lemma round_mag_one: "round_mag 1 = Some 1"
  by (simp add: round_eval)

lemma round_mag_unit:
  assumes "0 \<le> q" "q \<le> 1"
  shows "\<exists>v. round_mag q = Some v \<and> 0 \<le> v \<and> v \<le> 1"
proof -
  obtain v where "round_mag q = Some v" "v \<le> 1"
    using round_mag_le_fix [OF assms round_mag_one] by blast
  then show ?thesis using round_mag_nonneg [OF assms(1)] by blast
qed

lemma rnd_unit:
  assumes "0 \<le> q" "q \<le> 1"
  shows "is_finite (rnd s q) \<and> is_double (rnd s q) \<and> \<bar>valof (rnd s q)\<bar> \<le> 1"
proof -
  obtain v where v: "round_mag q = Some v" "0 \<le> v" "v \<le> 1"
    using round_mag_unit [OF assms] by blast
  then have "rnd s q = Fin s v" by (simp add: rnd_def)
  then show ?thesis using v rnd_is_double [OF assms(1), of s] by (simp add: sval_def)
qed

lemma cr_libm_ok: "libm_ok cr_libm"
proof -
  have c0: "cr_cos (Fin s 0) = Fin False 1" for s
    by (simp add: sval_def rnd_def round_mag_one)
  have s0: "cr_sin (Fin s 0) = Fin s 0" for s by simp
  have nf: "cr_cos a = NaN \<and> cr_sin a = NaN" if "\<not> is_finite a" for a
    using that by (cases a) simp_all
  have fin: "is_finite (cr_cos a) \<and> is_double (cr_cos a) \<and> \<bar>valof (cr_cos a)\<bar> \<le> 1 \<and>
             is_finite (cr_sin a) \<and> is_double (cr_sin a) \<and> \<bar>valof (cr_sin a)\<bar> \<le> 1"
    if fa: "is_finite a" for a
  proof -
    obtain s m where a: "a = Fin s m" using fa by (cases a) auto
    have c: "is_finite (cr_cos a) \<and> is_double (cr_cos a) \<and> \<bar>valof (cr_cos a)\<bar> \<le> 1"
      unfolding a cr_cos.simps by (rule rnd_unit) simp_all
    have "is_finite (cr_sin a) \<and> is_double (cr_sin a) \<and> \<bar>valof (cr_sin a)\<bar> \<le> 1"
    proof (cases "m = 0")
      case True
      then show ?thesis by (simp add: a round_mag_zero sval_def)
    next
      case False
      have "is_finite (rnd (sin (sval s m) < 0) \<bar>sin (sval s m)\<bar>) \<and>
            is_double (rnd (sin (sval s m) < 0) \<bar>sin (sval s m)\<bar>) \<and>
            \<bar>valof (rnd (sin (sval s m) < 0) \<bar>sin (sval s m)\<bar>)\<bar> \<le> 1"
        by (rule rnd_unit) simp_all
      then show ?thesis using False by (simp add: a)
    qed
    with c show ?thesis by simp
  qed
  show ?thesis unfolding libm_ok_def using c0 s0 nf fin by (simp add: cr_libm_def)
qed

lemmas show_eval = show_mag_def ilog10_def ilog10_up.simps ilog10_down.simps frac_text_def
  strip_zeros_def digits_def digit_char_def exp_text_def upt_rec

lemma show_one: "show_double d1 = ''1''"
  by (simp add: d1_def round_eval show_eval)

lemma show_zero: "show_double d0 = ''0''"
  by (simp add: d0_def show_mag_def)

lemma show_half: "show_double d_half = ''0.5''"
  by (simp add: d_half_def round_eval show_eval)

lemma round_mag_half: "round_mag (1 / 2) = Some (1 / 2)"
  by (simp add: round_eval)

lemma DBL_MAX_fix: "round_mag (2 ^ 1024 - 2 ^ 971) = Some (2 ^ 1024 - 2 ^ 971)"
proof -
  have "real_of_int (2 ^ 53 - 1) * 2 powi 971 = 2 ^ 1024 - 2 ^ 971" by simp
  then show ?thesis using round_mag_repr [of "2 ^ 53 - 1" 971] by simp
qed

lemma DBL_MAX_double: "is_double DBL_MAX \<and> is_finite DBL_MAX"
  using DBL_MAX_fix by (simp add: DBL_MAX_def)


lemma DBL_MAX_twice: "fadd DBL_MAX DBL_MAX = Infty False"
proof -
  have "(2::real) ^ 1024 - 2 ^ 970 \<le> 2 ^ 1024 - 2 ^ 971 + (2 ^ 1024 - 2 ^ 971)" by simp
  then have "round_mag (2 ^ 1024 - 2 ^ 971 + (2 ^ 1024 - 2 ^ 971)) = None"
    by (rule round_mag_overflow)
  moreover have "(0::real) < 2 ^ 1024 - 2 ^ 971 + (2 ^ 1024 - 2 ^ 971)" by simp
  ultimately show ?thesis
    by (simp add: DBL_MAX_def sval_def Let_def rnd_def)
qed


lemma fmul_unit_finite:
  assumes "is_finite d" "is_double d" "is_finite c" "is_double c" "\<bar>valof c\<bar> \<le> 1"
  shows "is_finite (fmul d c)"
proof -
  obtain s m t n where dc: "d = Fin s m" "c = Fin t n"
    using assms(1,3) by (cases d; cases c) auto
  have m: "0 \<le> m" "round_mag m = Some m" and n: "0 \<le> n" "n \<le> 1"
    using assms(2,4,5) by (auto simp: dc sval_def split: if_splits)
  have "m * n \<le> m * 1" using m(1) n(2) by (rule mult_left_mono [rotated])
  then have "m * n \<le> m" by simp
  moreover have "0 \<le> m * n" using m(1) n(1) by simp
  ultimately obtain v where "round_mag (m * n) = Some v"
    using round_mag_le_fix [of "m * n" m] m(2) by blast
  then show ?thesis by (simp add: dc rnd_def)
qed

lemma not_nan_iff: "\<not> is_nan a \<longleftrightarrow> a \<noteq> NaN"
  by (cases a) simp_all

lemma fmul_zero_left:
  assumes "is_zero d" "is_finite c"
  shows "\<exists>t. fmul d c = Fin t 0"
proof -
  obtain s m t n where dc: "d = Fin s m" "c = Fin t n"
    using assms by (cases d; cases c) auto
  then show ?thesis using assms(1) by (simp add: rnd_def round_mag_zero)
qed

lemma fadd_zero_right:
  assumes "is_double a"
  shows "fadd a (Fin t 0) = a \<or> (a = Fin True 0 \<and> fadd a (Fin t 0) = Fin False 0)"
proof (cases a)
  case (Fin s m)
  then have m: "0 \<le> m" "round_mag m = Some m" using assms by simp_all
  show ?thesis
  proof (cases "m = 0")
    case True
    then show ?thesis by (cases s; cases t) (simp_all add: Fin sval_def)
  next
    case False
    then have "0 < m" using m(1) by simp
    then show ?thesis using m(2) by (cases s) (simp_all add: Fin sval_def Let_def rnd_def)
  qed
qed simp_all

lemma fadd_NaN_right: "fadd a NaN = NaN"
  by (cases a) simp_all

lemma fmul_NaN_right: "fmul a NaN = NaN"
  by (cases a) simp_all

lemma round_mag_rel_error:
  assumes "0 < q" "round_mag q = Some v"
  shows "\<bar>v - q\<bar> \<le> q / 2 ^ 53 + 2 powi - 1075"
proof -
  have "\<bar>v - q\<bar> \<le> 2 powi qexp q / 2" using assms(2) by (rule round_mag_error)
  also have "\<dots> \<le> max (q / 2 ^ 52) (2 powi - 1074) / 2"
    using qexp_spacing [OF assms(1)] by simp
  also have "\<dots> \<le> (q / 2 ^ 52 + 2 powi - 1074) / 2"
    using assms(1) powi_pos [of "- 1074"] by (simp only: max_def split: if_splits) simp
  also have "\<dots> = q / 2 ^ 53 + 2 powi - 1074 / 2" by (simp add: add_divide_distrib)
  also have "2 powi - 1074 / 2 = (2::real) powi - 1075"
    using powi_pred [of "- 1074"] by simp
  finally show ?thesis .
qed

lemma fadd_error:
  assumes "is_finite a" "is_finite b" "is_finite (fadd a b)"
  shows "\<bar>valof (fadd a b) - (valof a + valof b)\<bar>
           \<le> \<bar>valof a + valof b\<bar> / 2 ^ 53 + 2 powi - 1075"
proof -
  obtain s m t n where ab: "a = Fin s m" "b = Fin t n"
    using assms(1,2) by (cases a; cases b) auto
  define R where "R = sval s m + sval t n"
  show ?thesis
  proof (cases "R = 0")
    case True
    then have "fadd a b = Fin (s \<and> t) 0" by (simp add: ab R_def Let_def)
    then have z: "valof (fadd a b) = 0" by (simp add: sval_def)
    have e: "valof a + valof b = 0" using True by (simp add: ab R_def)
    show ?thesis unfolding z e using powi_pos [of "- 1075"] by simp
  next
    case False
    then have f: "fadd a b = rnd (R < 0) \<bar>R\<bar>" by (simp add: ab R_def Let_def)
    then obtain v where v: "round_mag \<bar>R\<bar> = Some v" "fadd a b = Fin (R < 0) v"
      using assms(3) by (auto simp: rnd_def split: option.splits)
    have "\<bar>v - \<bar>R\<bar>\<bar> \<le> \<bar>R\<bar> / 2 ^ 53 + 2 powi - 1075"
      using False v(1) by (intro round_mag_rel_error) simp_all
    moreover have "\<bar>sval (R < 0) v - R\<bar> = \<bar>v - \<bar>R\<bar>\<bar>"
      unfolding sval_def by (cases "R < 0") auto
    ultimately have "\<bar>sval (R < 0) v - R\<bar> \<le> \<bar>R\<bar> / 2 ^ 53 + 2 powi - 1075" by (simp only:)
    moreover have "valof a + valof b = R" by (simp add: ab R_def)
    moreover have "valof (fadd a b) = sval (R < 0) v" by (simp add: v(2))
    ultimately show ?thesis by (simp only:)
  qed
qed

lemma fadd_exact_back:
  assumes "is_finite a" "is_finite b" "is_finite c" "is_double c" "valof a + valof b = valof c"
  shows "is_finite (fadd a b) \<and> valof (fadd a b) = valof c"
proof -
  obtain s m t n u w where abc: "a = Fin s m" "b = Fin t n" "c = Fin u w"
    using assms(1-3) by (cases a; cases b; cases c) auto
  have w: "0 \<le> w" "round_mag w = Some w" using assms(4) by (simp_all add: abc)
  define R where "R = sval s m + sval t n"
  have R: "R = sval u w" using assms(5) by (simp add: abc R_def)
  show ?thesis
  proof (cases "R = 0")
    case True
    then have "fadd a b = Fin (s \<and> t) 0" by (simp add: abc R_def Let_def)
    then show ?thesis using True R by (simp add: abc sval_def)
  next
    case False
    have "\<bar>R\<bar> = w" using w(1) R by (simp add: sval_def split: if_splits)
    then have "rnd (R < 0) \<bar>R\<bar> = Fin (R < 0) w" using w(2) by (simp add: rnd_def)
    moreover have "sval (R < 0) w = R" using \<open>\<bar>R\<bar> = w\<close> by (auto simp: sval_def)
    ultimately show ?thesis using False R by (simp add: abc R_def [symmetric] Let_def)
  qed
qed

lemma valof_fneg: "valof (fneg a) = - valof a"
  by (cases a) (simp_all add: sval_def)

lemma is_finite_fneg: "is_finite (fneg a) = is_finite a"
  by (cases a) simp_all

lemma fmul_zero_right:
  assumes "is_finite d" "is_zero c"
  shows "is_finite (fmul d c) \<and> valof (fmul d c) = 0"
proof -
  obtain s m t n where dc: "d = Fin s m" "c = Fin t n"
    using assms by (cases d; cases c) auto
  then show ?thesis using assms(2) by (simp add: rnd_def round_mag_zero sval_def)
qed

text \<open>Adding a zero to a heading does not change what the library returns for it.\<close>
lemma heading_plus_zero:
  assumes "libm_ok lm" "is_finite a" "is_double a" "is_zero z" "is_finite d"
  shows "fmul (fneg d) (lm_cos lm (fadd a z)) = fneg (fmul d (lm_cos lm a))"
    and "valof (fmul (fneg d) (lm_sin lm (fadd a z))) = - valof (fmul d (lm_sin lm a))"
    and "is_finite (fmul (fneg d) (lm_sin lm (fadd a z))) = is_finite (fmul d (lm_sin lm a))"
proof -
  obtain t where z: "z = Fin t 0" using assms(4) by (cases z) auto
  have c0: "lm_cos lm (Fin s 0) = Fin False 1" and s0: "lm_sin lm (Fin s 0) = Fin s 0" for s
    using assms(1) by (simp_all add: libm_ok_def)
  consider "fadd a z = a" | "a = Fin True 0" "fadd a z = Fin False 0"
    using fadd_zero_right [OF assms(3), of t] z by blast
  then have "(fmul (fneg d) (lm_cos lm (fadd a z)) = fneg (fmul d (lm_cos lm a))) \<and>
    valof (fmul (fneg d) (lm_sin lm (fadd a z))) = - valof (fmul d (lm_sin lm a)) \<and>
    is_finite (fmul (fneg d) (lm_sin lm (fadd a z))) = is_finite (fmul d (lm_sin lm a))"
  proof cases
    case 1
    then show ?thesis by (simp add: fmul_fneg valof_fneg is_finite_fneg)
  next
    case 2
    have "is_finite (fmul (fneg d) (Fin False 0)) \<and> valof (fmul (fneg d) (Fin False 0)) = 0"
      by (rule fmul_zero_right) (simp_all add: is_finite_fneg assms(5))
    moreover have "is_finite (fmul d (Fin True 0)) \<and> valof (fmul d (Fin True 0)) = 0"
      by (rule fmul_zero_right) (simp_all add: assms(5))
    moreover have "fadd (Fin True 0) z = Fin False 0" using 2 by simp
    ultimately show ?thesis by (simp add: 2(1) c0 s0 fmul_fneg)
  qed
  then show "fmul (fneg d) (lm_cos lm (fadd a z)) = fneg (fmul d (lm_cos lm a))"
    and "valof (fmul (fneg d) (lm_sin lm (fadd a z))) = - valof (fmul d (lm_sin lm a))"
    and "is_finite (fmul (fneg d) (lm_sin lm (fadd a z))) = is_finite (fmul d (lm_sin lm a))"
    by simp_all
qed

text \<open>Out by a term and back by its negation: the error of the two additions.\<close>
lemma out_and_back:
  assumes "is_finite a" "is_double a" "is_finite p" "is_finite p'" "valof p' = - valof p"
    and "is_finite (fadd a p)" "is_finite (fadd (fadd a p) p')"
  shows "\<bar>valof (fadd (fadd a p) p') - valof a\<bar>
           \<le> (\<bar>valof a + valof p\<bar> + \<bar>valof (fadd a p) - valof p\<bar>) / 2 ^ 53 + 2 powi - 1074"
    and "valof (fadd a p) = valof a + valof p \<Longrightarrow> valof (fadd (fadd a p) p') = valof a"
proof -
  define A where "A = valof a"
  define P where "P = valof p"
  define B where "B = valof (fadd a p)"
  define C where "C = valof (fadd (fadd a p) p')"
  have e1: "\<bar>B - (A + P)\<bar> \<le> \<bar>A + P\<bar> / 2 ^ 53 + 2 powi - 1075"
    unfolding A_def P_def B_def using assms(1,3,6) by (rule fadd_error)
  have "\<bar>C - (B + valof p')\<bar> \<le> \<bar>B + valof p'\<bar> / 2 ^ 53 + 2 powi - 1075"
    unfolding B_def C_def using assms(6,4,7) by (rule fadd_error)
  then have e2: "\<bar>C - (B - P)\<bar> \<le> \<bar>B - P\<bar> / 2 ^ 53 + 2 powi - 1075"
    by (simp add: assms(5) P_def)
  have "2 powi - 1075 + 2 powi - 1075 = (2::real) powi - 1074"
    using powi_pred [of "- 1074"] by simp
  moreover have "\<bar>C - A\<bar> \<le> \<bar>C - (B - P)\<bar> + \<bar>B - (A + P)\<bar>" by linarith
  ultimately have "\<bar>C - A\<bar> \<le> \<bar>A + P\<bar> / 2 ^ 53 + \<bar>B - P\<bar> / 2 ^ 53 + 2 powi - 1074"
    using e1 e2 by linarith
  then show "\<bar>valof (fadd (fadd a p) p') - valof a\<bar>
           \<le> (\<bar>valof a + valof p\<bar> + \<bar>valof (fadd a p) - valof p\<bar>) / 2 ^ 53 + 2 powi - 1074"
    by (simp add: A_def P_def B_def C_def add_divide_distrib)
  assume "valof (fadd a p) = valof a + valof p"
  then have "valof (fadd a p) + valof p' = valof a" by (simp add: assms(5))
  then show "valof (fadd (fadd a p) p') = valof a"
    using fadd_exact_back [OF assms(6,4,1,2)] by simp
qed

lemma cr_libm_zero: "lm_cos cr_libm (Fin s 0) = Fin False 1" "lm_sin cr_libm (Fin s 0) = Fin s 0"
  using cr_libm_ok by (simp_all add: libm_ok_def)

lemma absorb_eval:
  "round_mag 18014398509481984 = Some 18014398509481984"
  "round_mag 18014398509481985 = Some 18014398509481984"
  by (simp_all add: round_eval)

section \<open>What the two methods do to the pose and to the output\<close>

lemma move_pm1_eq:
  "move_pm1 lm d (r, out) =
     (r\<lparr>x := fadd (x r) (fmul d (lm_cos lm (angle r))),
        y := fadd (y r) (fmul d (lm_sin lm (angle r)))\<rparr>,
      out @ [''Robot moved to ('' @ show_double (fadd (x r) (fmul d (lm_cos lm (angle r)))) @
             '', '' @ show_double (fadd (y r) (fmul d (lm_sin lm (angle r)))) @ '')''])"
  by (simp add: move_pm1_def Let_def)

lemma rotate_pm1_eq:
  "rotate_pm1 c (r, out) =
     (r\<lparr>angle := fadd (angle r) c\<rparr>,
      out @ [''Robot rotated to '' @ show_double (fadd (angle r) c) @ '' radians''])"
  by (simp add: rotate_pm1_def Let_def)

lemma move_p4_pm1: "move_p4 lm d st = move_pm1 lm d st"
  by (simp add: move_p4_def move_pm1_def)

lemma rotate_p4_pm1: "rotate_p4 c st = rotate_pm1 c st"
  by (simp add: rotate_p4_def rotate_pm1_def)

lemma call_p4_pm1: "call_p4 lm c st = call_pm1 lm c st"
  by (cases c) (simp_all add: move_p4_pm1 rotate_p4_pm1)

lemma run_p4_pm1: "run_p4 lm cs st = run_pm1 lm cs st"
  by (induction cs arbitrary: st) (simp_all add: call_p4_pm1)

lemma show_mag_prec_default: "show_mag_prec 6 v = show_mag v"
proof -
  have "e0 - int 6 + 1 = e0 - 5" for e0 :: int by simp
  then show ?thesis unfolding show_mag_prec_def show_mag_def Let_def by simp
qed

lemma show_double_prec_default: "show_double_prec 6 a = show_double a"
  by (cases a) (simp_all add: show_mag_prec_default)

lemma move_pm1_prec_eq:
  "move_pm1_prec p lm d (r, out) =
     (r\<lparr>x := fadd (x r) (fmul d (lm_cos lm (angle r))),
        y := fadd (y r) (fmul d (lm_sin lm (angle r)))\<rparr>,
      out @ [''Robot moved to ('' @
               show_double_prec p (fadd (x r) (fmul d (lm_cos lm (angle r)))) @ '', '' @
               show_double_prec p (fadd (y r) (fmul d (lm_sin lm (angle r)))) @ '')''])"
  by (simp add: move_pm1_prec_def Let_def)

lemma rotate_pm1_prec_eq:
  "rotate_pm1_prec p c (r, out) =
     (r\<lparr>angle := fadd (angle r) c\<rparr>,
      out @ [''Robot rotated to '' @ show_double_prec p (fadd (angle r) c) @ '' radians''])"
  by (simp add: rotate_pm1_prec_def Let_def)

lemma move_p4_prec_pm1: "move_p4_prec p lm d st = move_pm1_prec p lm d st"
  by (simp add: move_p4_prec_def move_pm1_prec_def)

lemma rotate_p4_prec_pm1: "rotate_p4_prec p c st = rotate_pm1_prec p c st"
  by (simp add: rotate_p4_prec_def rotate_pm1_prec_def)

lemma move_pm1_prec_default: "move_pm1_prec 6 lm d st = move_pm1 lm d st"
  by (simp add: move_pm1_prec_def move_pm1_def show_double_prec_default)

lemma rotate_pm1_prec_default: "rotate_pm1_prec 6 c st = rotate_pm1 c st"
  by (simp add: rotate_pm1_prec_def rotate_pm1_def show_double_prec_default)

lemmas show_prec_eval = show_mag_prec_def ilog10_def ilog10_up.simps ilog10_down.simps
  frac_text_def strip_zeros_def digits_def digit_char_def exp_text_def upt_rec

lemma show_11_8:
  "show_mag_prec 6 (11 / 8) = ''1.375''"
  "show_mag_prec 2 (11 / 8) = ''1.4''"
  by (simp_all add: round_eval show_prec_eval)

lemma show_mag_prec_zero: "show_mag_prec p 0 = ''0''"
  by (simp add: show_mag_prec_def)

lemma round_mag_11_8: "round_mag (11 / 8) = Some (11 / 8)"
  by (simp add: round_eval)



lemma show_mag_zero: "show_mag 0 = ''0''"
  by (simp add: show_mag_def)

lemma sval_mult: "sval s m * sval t n = sval (s \<noteq> t) (m * n)"
  by (simp add: sval_def)

lemma sval_diff_abs: "\<bar>sval u v - sval u q\<bar> = \<bar>v - q\<bar>"
  unfolding sval_def by (cases u) auto

lemma fmul_error:
  assumes "is_double a" "is_double b" "is_finite a" "is_finite b" "is_finite (fmul a b)"
  shows "\<bar>valof (fmul a b) - valof a * valof b\<bar>
           \<le> \<bar>valof a * valof b\<bar> / 2 ^ 53 + 2 powi - 1075"
proof -
  obtain s m t n where ab: "a = Fin s m" "b = Fin t n"
    using assms(3,4) by (cases a; cases b) auto
  have mn: "0 \<le> m" "0 \<le> n" using assms(1,2) by (simp_all add: ab)
  define q where "q = m * n"
  have q0: "0 \<le> q" using mn by (simp add: q_def)
  have f: "fmul a b = rnd (s \<noteq> t) q" by (simp add: ab q_def)
  then obtain v where v: "round_mag q = Some v" "fmul a b = Fin (s \<noteq> t) v"
    using assms(5) by (auto simp: rnd_def split: option.splits)
  have p: "valof a * valof b = sval (s \<noteq> t) q" by (simp add: ab q_def sval_mult)
  have aq: "\<bar>sval (s \<noteq> t) q\<bar> = q" using q0 by (simp add: sval_def)
  have "\<bar>v - q\<bar> \<le> q / 2 ^ 53 + 2 powi - 1075"
  proof (cases "q = 0")
    case True
    then have "v = 0" using v(1) by (simp add: round_mag_zero)
    then show ?thesis using True powi_pos [of "- 1075"] by simp
  next
    case False
    then have "0 < q" using q0 by simp
    then show ?thesis using v(1) by (rule round_mag_rel_error)
  qed
  then have "\<bar>sval (s \<noteq> t) v - sval (s \<noteq> t) q\<bar> \<le> \<bar>sval (s \<noteq> t) q\<bar> / 2 ^ 53 + 2 powi - 1075"
    by (simp only: sval_diff_abs aq)
  moreover have "valof (fmul a b) = sval (s \<noteq> t) v" by (simp add: v(2))
  ultimately show ?thesis by (simp only: p)
qed

lemma fadd_finiteD: "is_finite (fadd a b) \<Longrightarrow> is_finite a \<and> is_finite b"
  using fadd_nonfinite [of a b] by blast

lemma fmul_finiteD: "is_finite (fmul a b) \<Longrightarrow> is_finite a \<and> is_finite b"
  using fmul_nonfinite [of a b] by blast

text \<open>The error of one coordinate update against the exact real value.\<close>
lemma update_error:
  assumes "is_double d" "is_double c" "is_finite (fadd a (fmul d c))" "\<bar>valof c - w\<bar> \<le> e"
  shows "\<bar>valof (fadd a (fmul d c)) - (valof a + valof d * w)\<bar>
           \<le> (\<bar>valof a + valof (fmul d c)\<bar> + \<bar>valof d * valof c\<bar>) / 2 ^ 53
               + 2 powi - 1074 + \<bar>valof d\<bar> * e"
proof -
  have fa: "is_finite a" and fp: "is_finite (fmul d c)" using fadd_finiteD [OF assms(3)] by simp_all
  have fd: "is_finite d" and fc: "is_finite c" using fmul_finiteD [OF fp] by simp_all
  define A where "A = valof a"
  define D where "D = valof d"
  define C where "C = valof c"
  define P where "P = valof (fmul d c)"
  define S where "S = valof (fadd a (fmul d c))"
  have e1: "\<bar>S - (A + P)\<bar> \<le> \<bar>A + P\<bar> / 2 ^ 53 + 2 powi - 1075"
    unfolding S_def A_def P_def using fa fp assms(3) by (rule fadd_error)
  have e2: "\<bar>P - D * C\<bar> \<le> \<bar>D * C\<bar> / 2 ^ 53 + 2 powi - 1075"
    unfolding P_def D_def C_def using assms(1,2) fd fc fp by (rule fmul_error)
  have "\<bar>D * C - D * w\<bar> = \<bar>D\<bar> * \<bar>C - w\<bar>" by (simp add: abs_mult right_diff_distrib [symmetric])
  also have "\<dots> \<le> \<bar>D\<bar> * e" using assms(4) by (simp add: C_def mult_left_mono)
  finally have e3: "\<bar>D * C - D * w\<bar> \<le> \<bar>D\<bar> * e" .
  have h: "2 powi - 1075 + 2 powi - 1075 = (2::real) powi - 1074"
    using powi_pred [of "- 1074"] by simp
  have "\<bar>S - (A + D * w)\<bar> \<le> \<bar>S - (A + P)\<bar> + \<bar>P - D * C\<bar> + \<bar>D * C - D * w\<bar>" by linarith
  then have "\<bar>S - (A + D * w)\<bar>
      \<le> \<bar>A + P\<bar> / 2 ^ 53 + \<bar>D * C\<bar> / 2 ^ 53 + 2 powi - 1074 + \<bar>D\<bar> * e"
    using e1 e2 e3 h by linarith
  then show ?thesis by (simp add: S_def A_def D_def C_def P_def add_divide_distrib)
qed

lemma move_error:
  assumes "libm_ok lm" and "is_double d"
    and "\<bar>valof (lm_cos lm (angle r)) - cos (valof (angle r))\<bar> \<le> e"
    and "\<bar>valof (lm_sin lm (angle r)) - sin (valof (angle r))\<bar> \<le> e"
    and "is_finite (fadd (x r) (fmul d (lm_cos lm (angle r))))"
    and "is_finite (fadd (y r) (fmul d (lm_sin lm (angle r))))"
  shows "\<bar>valof (fadd (x r) (fmul d (lm_cos lm (angle r)))) -
           (valof (x r) + valof d * cos (valof (angle r)))\<bar>
         \<le> (\<bar>valof (x r) + valof (fmul d (lm_cos lm (angle r)))\<bar> +
             \<bar>valof d * valof (lm_cos lm (angle r))\<bar>) / 2 ^ 53
            + 2 powi - 1074 + \<bar>valof d\<bar> * e"
    and "\<bar>valof (fadd (y r) (fmul d (lm_sin lm (angle r)))) -
           (valof (y r) + valof d * sin (valof (angle r)))\<bar>
         \<le> (\<bar>valof (y r) + valof (fmul d (lm_sin lm (angle r)))\<bar> +
             \<bar>valof d * valof (lm_sin lm (angle r))\<bar>) / 2 ^ 53
            + 2 powi - 1074 + \<bar>valof d\<bar> * e"
proof -
  have "is_finite (lm_cos lm (angle r))"
    using fadd_finiteD [OF assms(5)] fmul_finiteD by blast
  then have "is_finite (angle r)" using assms(1) by (auto simp: libm_ok_def)
  then have dc: "is_double (lm_cos lm (angle r))" and ds: "is_double (lm_sin lm (angle r))"
    using assms(1) by (simp_all add: libm_ok_def)
  show "\<bar>valof (fadd (x r) (fmul d (lm_cos lm (angle r)))) -
           (valof (x r) + valof d * cos (valof (angle r)))\<bar>
         \<le> (\<bar>valof (x r) + valof (fmul d (lm_cos lm (angle r)))\<bar> +
             \<bar>valof d * valof (lm_cos lm (angle r))\<bar>) / 2 ^ 53
            + 2 powi - 1074 + \<bar>valof d\<bar> * e"
    using assms(2) dc assms(5,3) by (rule update_error)
  show "\<bar>valof (fadd (y r) (fmul d (lm_sin lm (angle r)))) -
           (valof (y r) + valof d * sin (valof (angle r)))\<bar>
         \<le> (\<bar>valof (y r) + valof (fmul d (lm_sin lm (angle r)))\<bar> +
             \<bar>valof d * valof (lm_sin lm (angle r))\<bar>) / 2 ^ 53
            + 2 powi - 1074 + \<bar>valof d\<bar> * e"
    using assms(2) ds assms(6,4) by (rule update_error)
qed

lemma sin_half: "0 < sin (1 / 2 :: real)" "sin (1 / 2 :: real) \<le> 1 / 2"
proof -
  have "(1 / 2 :: real) < pi" using pi_ge_two by linarith
  then show "0 < sin (1 / 2 :: real)" by (intro sin_gt_zero) simp_all
  show "sin (1 / 2 :: real) \<le> 1 / 2" by (rule sin_x_le_x) simp
qed

lemma rhe_le_half: "0 \<le> t \<Longrightarrow> t \<le> 1 / 2 \<Longrightarrow> rhe t = 0"
proof -
  assume t: "0 \<le> t" "t \<le> 1 / 2"
  then have f: "\<lfloor>t\<rfloor> = 0" by linarith
  show ?thesis using t unfolding rhe_def Let_def f by auto
qed

text \<open>Magnitudes up to half the smallest positive double round to zero.\<close>
lemma round_mag_tiny:
  assumes "0 \<le> q" "q \<le> 2 powi - 1075"
  shows "round_mag q = Some 0"
proof (cases "q = 0")
  case True
  then show ?thesis by (simp add: round_mag_zero)
next
  case False
  then have q: "0 < q" using assms(1) by simp
  have half: "2 powi - 1075 = (2::real) powi - 1074 / 2" using powi_pred [of "- 1074"] by simp
  have "(2::real) powi - 1075 < 2 powi - 1074"
    unfolding half using powi_pos [of "- 1074"] by linarith
  then have "q < 2 powi - 1074" using assms(2) by linarith
  then have "ilog2 q < - 1074" by (rule ilog2_less [OF q])
  then have k: "qexp q = - 1074" by (simp add: qexp_def)
  have "q \<le> 2 powi - 1074 * (1 / 2)" using assms(2) unfolding half by simp
  then have "q / 2 powi - 1074 \<le> 1 / 2"
    using powi_pos [of "- 1074"] by (simp only: pos_divide_le_eq mult.commute)
  moreover have "0 \<le> q / 2 powi - 1074" using q by simp
  ultimately have "rhe (q / 2 powi - 1074) = 0" by (intro rhe_le_half)
  then show ?thesis by (simp add: round_mag_def Let_def k)
qed

lemma DBL_TRUE_MIN_double: "is_double DBL_TRUE_MIN \<and> is_finite DBL_TRUE_MIN"
  using round_mag_repr [of 1 "- 1074"] by (simp add: DBL_TRUE_MIN_def)

lemma d_half_double: "is_double d_half \<and> is_finite d_half"
  by (simp add: d_half_def round_mag_half)

lemma tiny_times_sin:
  "fmul DBL_TRUE_MIN (lm_sin cr_libm d_half) = Fin False 0"
proof -
  obtain v where v: "round_mag (sin (1 / 2)) = Some v" "v \<le> 1 / 2"
    using round_mag_le_fix [of "sin (1 / 2)" "1 / 2"] sin_half round_mag_half by auto
  have v0: "0 \<le> v" using round_mag_nonneg [of "sin (1 / 2)" v] sin_half(1) v(1) by simp
  have c: "lm_sin cr_libm d_half = Fin False v"
    using sin_half(1) v(1) by (simp add: cr_libm_def d_half_def sval_def rnd_def)
  have "2 powi - 1074 * v \<le> 2 powi - 1074 * (1 / 2)"
    using v(2) powi_pos [of "- 1074"] by (intro mult_left_mono) simp_all
  also have "\<dots> = (2::real) powi - 1075" using powi_pred [of "- 1074"] by simp
  finally have "2 powi - 1074 * v \<le> 2 powi - 1075" .
  moreover have "0 \<le> 2 powi - 1074 * v" using v0 powi_pos [of "- 1074"] by simp
  ultimately have "round_mag (2 powi - 1074 * v) = Some 0" by (intro round_mag_tiny)
  then show ?thesis unfolding c DBL_TRUE_MIN_def by (simp add: rnd_def)
qed

section \<open>Properties of the two programs\<close>

text \<open>
  C1, read as the specification reads it (the stored \<open>x\<close> is the real number
  \<open>x + distance * cos(angle)\<close>, to within a relative error of \<open>1e-9\<close>), fails.
  \<open>Robot(DBL_MAX, 0, 0).move(DBL_MAX)\<close> stores \<open>+Infinity\<close> in \<open>x\<close>, which is within no
  tolerance of a real number. \<open>Robot(0, 0, 0.5).move(2^-1074)\<close> stores 0 in \<open>y\<close>,
  because the product \<open>2^-1074 * sin(0.5)\<close> is below half the smallest positive double
  and rounds to zero, while \<open>y + distance * sin(angle)\<close> is positive: the stored value
  is off by the whole of the exact one.
\<close>

theorem move_counterexample:
  "is_finite DBL_MAX \<and> is_double DBL_MAX \<and>
   x (fst (move_pm1 cr_libm DBL_MAX (Robot DBL_MAX d0 d0, []))) = Infty False \<and>
   x (fst (move_p4 cr_libm DBL_MAX (Robot DBL_MAX d0 d0, []))) = Infty False \<and>
   is_finite DBL_TRUE_MIN \<and> is_double DBL_TRUE_MIN \<and> is_finite d_half \<and> is_double d_half \<and>
   y (fst (move_pm1 cr_libm DBL_TRUE_MIN (Robot d0 d0 d_half, []))) = d0 \<and>
   y (fst (move_p4 cr_libm DBL_TRUE_MIN (Robot d0 d0 d_half, []))) = d0 \<and>
   0 < valof d0 + valof DBL_TRUE_MIN * sin (valof d_half) \<and>
   \<not> is_finite (x (fst (move_pm1 cr_libm DBL_MAX (Robot DBL_MAX d0 d0, [])))) \<and>
   \<not> \<bar>valof (y (fst (move_pm1 cr_libm DBL_TRUE_MIN (Robot d0 d0 d_half, [])))) -
        (valof d0 + valof DBL_TRUE_MIN * sin (valof d_half))\<bar>
      \<le> \<bar>valof d0 + valof DBL_TRUE_MIN * sin (valof d_half)\<bar> / 10 ^ 9"
proof -
  have a: "x (fst (move_pm1 cr_libm DBL_MAX (Robot DBL_MAX d0 d0, []))) = Infty False"
  proof -
    have "fmul DBL_MAX (Fin False 1) = DBL_MAX"
      using DBL_MAX_fix by (simp add: DBL_MAX_def rnd_def)
    then show ?thesis
      by (simp add: move_pm1_eq Robot_def d0_def cr_libm_zero DBL_MAX_twice)
  qed
  have b: "y (fst (move_pm1 cr_libm DBL_TRUE_MIN (Robot d0 d0 d_half, []))) = d0"
    by (simp add: move_pm1_eq Robot_def tiny_times_sin) (simp add: d0_def sval_def)
  have "0 < (2::real) powi - 1074 * sin (1 / 2)"
    using sin_half(1) powi_pos [of "- 1074"] by (intro mult_pos_pos)
  then have c: "0 < valof d0 + valof DBL_TRUE_MIN * sin (valof d_half)"
    by (simp only: d0_def d_half_def DBL_TRUE_MIN_def valof.simps sval_def if_False add_0)
  have e: "\<not> \<bar>valof d0 - E\<bar> \<le> \<bar>E\<bar> / 10 ^ 9" if "0 < E" for E :: real
  proof -
    have "\<bar>E\<bar> / 10 ^ 9 < \<bar>E\<bar>" using that by simp
    moreover have "\<bar>valof d0 - E\<bar> = \<bar>E\<bar>" by (simp add: d0_def sval_def)
    ultimately show ?thesis by linarith
  qed
  have f: "\<not> is_finite (Infty False)" by simp
  show ?thesis
    using a b c e [OF c] f DBL_MAX_double DBL_TRUE_MIN_double d_half_double
    by (simp only: move_p4_pm1 simp_thms)
qed

text \<open>
  C1, amended. \<open>move(distance)\<close> stores in \<open>x\<close> the double sum of \<open>x\<close> and the double
  product \<open>p\<close> of \<open>distance\<close> and \<open>c\<close>, the double that the library returns for
  \<open>cos(angle)\<close>, likewise in \<open>y\<close> with \<open>sin\<close>, and leaves \<open>angle\<close> as it was.
  Whenever the stored coordinates are finite, \<open>x\<close> is within
  \<open>(|x_old + p| + |distance * c|) / 2^53 + 2^-1074 + |distance| * e\<close> of the real
  number \<open>x_old + distance * cos(angle)\<close>, where \<open>e\<close> bounds the error \<open>|c - cos(angle)|\<close>
  of the library; likewise \<open>y\<close>.
\<close>

theorem move_amended:
  assumes "mv = move_pm1 \<or> mv = move_p4"
  shows "x (fst (mv lm d (r, out))) = fadd (x r) (fmul d (lm_cos lm (angle r))) \<and>
         y (fst (mv lm d (r, out))) = fadd (y r) (fmul d (lm_sin lm (angle r))) \<and>
         angle (fst (mv lm d (r, out))) = angle r \<and>
         (libm_ok lm \<and> is_double d \<and>
          \<bar>valof (lm_cos lm (angle r)) - cos (valof (angle r))\<bar> \<le> e \<and>
          \<bar>valof (lm_sin lm (angle r)) - sin (valof (angle r))\<bar> \<le> e \<and>
          is_finite (x (fst (mv lm d (r, out)))) \<and> is_finite (y (fst (mv lm d (r, out)))) \<longrightarrow>
          \<bar>valof (x (fst (mv lm d (r, out)))) -
             (valof (x r) + valof d * cos (valof (angle r)))\<bar>
            \<le> (\<bar>valof (x r) + valof (fmul d (lm_cos lm (angle r)))\<bar> +
                \<bar>valof d * valof (lm_cos lm (angle r))\<bar>) / 2 ^ 53
               + 2 powi - 1074 + \<bar>valof d\<bar> * e \<and>
          \<bar>valof (y (fst (mv lm d (r, out)))) -
             (valof (y r) + valof d * sin (valof (angle r)))\<bar>
            \<le> (\<bar>valof (y r) + valof (fmul d (lm_sin lm (angle r)))\<bar> +
                \<bar>valof d * valof (lm_sin lm (angle r))\<bar>) / 2 ^ 53
               + 2 powi - 1074 + \<bar>valof d\<bar> * e)"
proof -
  have mv: "mv = move_pm1" using assms by (auto simp: fun_eq_iff move_p4_pm1)
  show ?thesis
    unfolding mv using move_error [of lm d r e] by (simp add: move_pm1_eq)
qed

text \<open>
  The hypotheses hold for \<open>Robot(2, 0, 0).move(3.0)\<close> with the correctly rounded
  library (exact at heading 0): \<open>x\<close> becomes 5.
\<close>

theorem move_amended_witness:
  "libm_ok cr_libm \<and> is_double (Fin False 3) \<and>
   \<bar>valof (lm_cos cr_libm d0) - cos (valof d0)\<bar> \<le> 0 \<and>
   \<bar>valof (lm_sin cr_libm d0) - sin (valof d0)\<bar> \<le> 0 \<and>
   move_p4 cr_libm (Fin False 3) (Robot (Fin False 2) d0 d0, []) =
     (Robot (Fin False 5) d0 d0, [''Robot moved to (5, 0)'']) \<and>
   \<bar>valof (Fin False 5) - (valof (Fin False 2) + valof (Fin False 3) * cos (valof d0))\<bar>
     \<le> (\<bar>valof (Fin False 2) + valof (Fin False 3)\<bar> +
         \<bar>valof (Fin False 3) * valof (Fin False 1)\<bar>) / 2 ^ 53 + 2 powi - 1074"
proof -
  define r where "r = Robot (Fin False 2) d0 d0"
  have ev: "round_mag 2 = Some 2" "round_mag 3 = Some 3" "round_mag 5 = Some 5"
    by (simp_all add: round_eval)
  have s5: "show_mag 5 = ''5''" by (simp add: round_eval show_eval)
  have m: "move_p4 cr_libm (Fin False 3) (r, []) =
      (Robot (Fin False 5) d0 d0, [''Robot moved to (5, 0)''])"
    by (simp add: r_def move_p4_pm1 move_pm1_eq Robot_def d0_def cr_libm_zero sval_def Let_def
        rnd_def ev round_mag_zero s5 show_mag_zero)
  have c: "lm_cos cr_libm (angle r) = Fin False 1" "lm_sin cr_libm (angle r) = d0"
    "fmul (Fin False 3) (Fin False 1) = Fin False 3"
    by (simp_all add: r_def Robot_def d0_def cr_libm_zero rnd_def ev)
  have h: "is_double (Fin False 3)"
    "\<bar>valof (lm_cos cr_libm (angle r)) - cos (valof (angle r))\<bar> \<le> 0"
    "\<bar>valof (lm_sin cr_libm (angle r)) - sin (valof (angle r))\<bar> \<le> 0"
    "is_finite (x (fst (move_p4 cr_libm (Fin False 3) (r, []))))"
    "is_finite (y (fst (move_p4 cr_libm (Fin False 3) (r, []))))"
    by (simp_all add: m c ev) (simp_all add: r_def Robot_def d0_def sval_def)
  have "\<bar>valof (x (fst (move_p4 cr_libm (Fin False 3) (r, [])))) -
      (valof (x r) + valof (Fin False 3) * cos (valof (angle r)))\<bar>
    \<le> (\<bar>valof (x r) + valof (fmul (Fin False 3) (lm_cos cr_libm (angle r)))\<bar> +
        \<bar>valof (Fin False 3) * valof (lm_cos cr_libm (angle r))\<bar>) / 2 ^ 53
       + 2 powi - 1074 + \<bar>valof (Fin False 3)\<bar> * 0"
    using move_amended [OF disjI2 [OF refl], of cr_libm "Fin False 3" r "[]" 0] cr_libm_ok h
    by blast
  then have "\<bar>valof (Fin False 5) - (valof (Fin False 2) + valof (Fin False 3) * cos (valof d0))\<bar>
     \<le> (\<bar>valof (Fin False 2) + valof (Fin False 3)\<bar> +
         \<bar>valof (Fin False 3) * valof (Fin False 1)\<bar>) / 2 ^ 53 + 2 powi - 1074"
    unfolding m c by (simp add: r_def Robot_def)
  moreover have "\<bar>valof (lm_cos cr_libm d0) - cos (valof d0)\<bar> \<le> 0"
    "\<bar>valof (lm_sin cr_libm d0) - sin (valof d0)\<bar> \<le> 0"
    using h(2,3) by (simp_all add: r_def Robot_def)
  ultimately show ?thesis using cr_libm_ok h(1) m by (simp only: r_def simp_thms)
qed


text \<open>
  C3, as stated, fails: finite fields and a finite argument do not keep the fields
  finite, because a sum of two doubles can overflow. \<open>Robot(0, 0, DBL_MAX)\<close> has finite
  fields, and \<open>rotate(DBL_MAX)\<close> makes its heading \<open>+Infinity\<close>;
  \<open>Robot(DBL_MAX, 0, 0).move(DBL_MAX)\<close> makes \<open>x\<close> \<open>+Infinity\<close>.
\<close>

theorem finiteness_counterexample:
  "is_finite (x (Robot d0 d0 DBL_MAX)) \<and> is_finite (y (Robot d0 d0 DBL_MAX)) \<and>
   is_finite (angle (Robot d0 d0 DBL_MAX)) \<and> is_finite DBL_MAX \<and> is_double DBL_MAX \<and>
   angle (fst (rotate_pm1 DBL_MAX (Robot d0 d0 DBL_MAX, []))) = Infty False \<and>
   angle (fst (rotate_p4 DBL_MAX (Robot d0 d0 DBL_MAX, []))) = Infty False \<and>
   x (fst (move_pm1 cr_libm DBL_MAX (Robot DBL_MAX d0 d0, []))) = Infty False \<and>
   x (fst (move_p4 cr_libm DBL_MAX (Robot DBL_MAX d0 d0, []))) = Infty False"
proof -
  have "lm_cos cr_libm d0 = d1" using cr_libm_ok by (simp add: libm_ok_def d0_def d1_def)
  moreover have "fmul DBL_MAX d1 = DBL_MAX"
    using DBL_MAX_fix by (simp add: DBL_MAX_def d1_def rnd_def)
  ultimately show ?thesis
    using DBL_MAX_double
    by (simp add: rotate_p4_pm1 move_p4_pm1 rotate_pm1_eq move_pm1_eq Robot_def DBL_MAX_twice d0_def)
qed

text \<open>
  C3, amended. Constructed with finite arguments, the three fields are finite. With a
  finite pose and a finite argument, \<open>move\<close> and \<open>rotate\<close> never store a NaN, and the
  field they update stays finite exactly when the exact sum of the old field and the term
  added to it is smaller in magnitude than \<open>2^1024 - 2^970\<close> (otherwise it is an
  infinity); the product \<open>distance * cos(angle)\<close> is always finite, and the fields a
  method does not update keep their values. The library is assumed to return finite
  values of magnitude at most 1 for finite arguments.
\<close>

theorem finiteness_amended:
  assumes "libm_ok lm"
    and "mv = move_pm1 \<or> mv = move_p4" and "rt = rotate_pm1 \<or> rt = rotate_p4"
    and "is_finite (x r)" "is_finite (y r)" "is_finite (angle r)"
    and "is_finite d" "is_double d"
  shows "is_finite (x (Robot (x r) (y r) (angle r))) \<and>
         is_finite (y (Robot (x r) (y r) (angle r))) \<and>
         is_finite (angle (Robot (x r) (y r) (angle r))) \<and>
         \<not> is_nan (angle (fst (rt d (r, out)))) \<and>
         (is_finite (angle (fst (rt d (r, out)))) \<longleftrightarrow>
            \<bar>valof (angle r) + valof d\<bar> < 2 ^ 1024 - 2 ^ 970) \<and>
         x (fst (rt d (r, out))) = x r \<and> y (fst (rt d (r, out))) = y r \<and>
         is_finite (fmul d (lm_cos lm (angle r))) \<and>
         is_finite (fmul d (lm_sin lm (angle r))) \<and>
         \<not> is_nan (x (fst (mv lm d (r, out)))) \<and>
         (is_finite (x (fst (mv lm d (r, out)))) \<longleftrightarrow>
            \<bar>valof (x r) + valof (fmul d (lm_cos lm (angle r)))\<bar> < 2 ^ 1024 - 2 ^ 970) \<and>
         \<not> is_nan (y (fst (mv lm d (r, out)))) \<and>
         (is_finite (y (fst (mv lm d (r, out)))) \<longleftrightarrow>
            \<bar>valof (y r) + valof (fmul d (lm_sin lm (angle r)))\<bar> < 2 ^ 1024 - 2 ^ 970) \<and>
         angle (fst (mv lm d (r, out))) = angle r"
proof -
  have mv: "mv = move_pm1" using assms(2) by (auto simp: fun_eq_iff move_p4_pm1)
  have rt: "rt = rotate_pm1" using assms(3) by (auto simp: fun_eq_iff rotate_p4_pm1)
  have lib: "is_finite (lm_cos lm (angle r))" "is_double (lm_cos lm (angle r))"
    "\<bar>valof (lm_cos lm (angle r))\<bar> \<le> 1"
    "is_finite (lm_sin lm (angle r))" "is_double (lm_sin lm (angle r))"
    "\<bar>valof (lm_sin lm (angle r))\<bar> \<le> 1"
    using assms(1,6) by (simp_all add: libm_ok_def)
  have pc: "is_finite (fmul d (lm_cos lm (angle r)))"
    using assms(7,8) lib(1-3) by (rule fmul_unit_finite)
  have ps: "is_finite (fmul d (lm_sin lm (angle r)))"
    using assms(7,8) lib(4-6) by (rule fmul_unit_finite)
  show ?thesis
    unfolding mv rt
    using assms(4-7) pc ps
    by (simp add: move_pm1_eq rotate_pm1_eq Robot_def not_nan_iff
        fadd_finite_not_nan fadd_finite_iff)
qed

text \<open>The hypotheses hold for \<open>Robot(0, 0, 0)\<close>, the argument 1.0 and the correctly rounded library.\<close>

theorem finiteness_amended_witness:
  "libm_ok cr_libm \<and> is_finite d1 \<and> is_double d1 \<and>
   is_finite (angle (fst (rotate_pm1 d1 (Robot d0 d0 d0, [])))) \<and>
   is_finite (x (fst (move_p4 cr_libm d1 (Robot d0 d0 d0, [])))) \<and>
   is_finite (y (fst (move_p4 cr_libm d1 (Robot d0 d0 d0, []))))"
  using finiteness_amended [of cr_libm move_p4 rotate_pm1 "Robot d0 d0 d0" d1 "[]"] cr_libm_ok
  by (simp add: Robot_def d0_def d1_def sval_def round_mag_one round_mag_zero rnd_def Let_def
      cr_libm_def move_p4_pm1 move_pm1_eq rotate_pm1_eq)

text \<open>
  C4. Each entry point writes its banner first, constructs one robot with pose
  \<open>(0, 0, 0)\<close>, makes a fixed sequence of calls on it (\<open>move(1.0)\<close> and
  \<open>rotate(0.5)\<close> in project -1, which writes three lines in all; no call in project 4,
  which writes the banner only) and returns 0, whatever the library functions return.
\<close>

theorem entry_points:
  "fst (main_pm1 lm) = 0 \<and> fst (main_p4 lm) = 0 \<and>
   snd (main_pm1 lm) =
     run_pm1 lm [Move d1, Rotate d_half] (Robot d0 d0 d0, [''Robot C++ Example'']) \<and>
   snd (main_p4 lm) = run_p4 lm [] (Robot d0 d0 d0, [''My name is shayan'']) \<and>
   hd (snd (snd (main_pm1 lm))) = ''Robot C++ Example'' \<and>
   length (snd (snd (main_pm1 lm))) = 3 \<and>
   snd (snd (main_p4 lm)) = [''My name is shayan'']"
  by (simp add: main_pm1_def main_p4_def Let_def move_pm1_eq rotate_pm1_eq)



text \<open>
  C6, as stated for every pose, fails where the heading is not finite: \<open>cos\<close> and
  \<open>sin\<close> of an infinity are NaN, \<open>0 * NaN\<close> is NaN, and the position becomes
  \<open>(NaN, NaN)\<close>. Such a pose is reached with finite arguments only:
  \<open>Robot(0, 0, DBL_MAX)\<close> after \<open>rotate(DBL_MAX)\<close> is \<open>(0, 0, +Infinity)\<close>, and
  \<open>move(0)\<close> then turns the position \<open>(0, 0)\<close> into \<open>(NaN, NaN)\<close>.
\<close>

theorem move_zero_counterexample:
  "is_finite DBL_MAX \<and> is_double DBL_MAX \<and>
   fst (rotate_pm1 DBL_MAX (Robot d0 d0 DBL_MAX, [])) = Robot d0 d0 (Infty False) \<and>
   x (fst (move_pm1 cr_libm d0 (Robot d0 d0 (Infty False), []))) = NaN \<and>
   y (fst (move_pm1 cr_libm d0 (Robot d0 d0 (Infty False), []))) = NaN \<and>
   x (fst (move_p4 cr_libm d0 (Robot d0 d0 (Infty False), []))) = NaN \<and>
   y (fst (move_p4 cr_libm d0 (Robot d0 d0 (Infty False), []))) = NaN"
  using DBL_MAX_double
  by (simp add: move_p4_pm1 move_pm1_eq rotate_pm1_eq Robot_def DBL_MAX_twice cr_libm_def d0_def)

text \<open>
  C6, amended. For every pose whose heading is finite, \<open>move(0)\<close> (with either zero)
  leaves \<open>x\<close> and \<open>y\<close> as they were, except that a coordinate \<open>-0\<close> can become \<open>+0\<close>;
  where the heading is an infinity or a NaN, \<open>move(0)\<close> makes both coordinates NaN. The
  heading is unchanged in both cases.
\<close>

theorem move_zero_amended:
  assumes "libm_ok lm" and "mv = move_pm1 \<or> mv = move_p4"
    and "is_double (x r)" "is_double (y r)" "is_zero d"
  shows "(is_finite (angle r) \<longrightarrow>
           (x (fst (mv lm d (r, out))) = x r \<or>
            (x r = Fin True 0 \<and> x (fst (mv lm d (r, out))) = Fin False 0)) \<and>
           (y (fst (mv lm d (r, out))) = y r \<or>
            (y r = Fin True 0 \<and> y (fst (mv lm d (r, out))) = Fin False 0))) \<and>
         (\<not> is_finite (angle r) \<longrightarrow>
           x (fst (mv lm d (r, out))) = NaN \<and> y (fst (mv lm d (r, out))) = NaN) \<and>
         angle (fst (mv lm d (r, out))) = angle r"
proof -
  have mv: "mv = move_pm1" using assms(2) by (auto simp: fun_eq_iff move_p4_pm1)
  have fin: "(x (fst (mv lm d (r, out))) = x r \<or>
            (x r = Fin True 0 \<and> x (fst (mv lm d (r, out))) = Fin False 0)) \<and>
           (y (fst (mv lm d (r, out))) = y r \<or>
            (y r = Fin True 0 \<and> y (fst (mv lm d (r, out))) = Fin False 0))"
    if a: "is_finite (angle r)"
  proof -
    have "is_finite (lm_cos lm (angle r))" "is_finite (lm_sin lm (angle r))"
      using assms(1) a by (simp_all add: libm_ok_def)
    then obtain t u where p: "fmul d (lm_cos lm (angle r)) = Fin t 0"
      "fmul d (lm_sin lm (angle r)) = Fin u 0"
      using fmul_zero_left [OF assms(5)] by blast
    show ?thesis
      unfolding mv using fadd_zero_right [OF assms(3), of t] fadd_zero_right [OF assms(4), of u]
      by (simp add: move_pm1_eq p)
  qed
  have nonfin: "x (fst (mv lm d (r, out))) = NaN \<and> y (fst (mv lm d (r, out))) = NaN"
    if a: "\<not> is_finite (angle r)"
  proof -
    have "lm_cos lm (angle r) = NaN" "lm_sin lm (angle r) = NaN"
      using assms(1) a by (simp_all add: libm_ok_def)
    then show ?thesis unfolding mv by (simp add: move_pm1_eq fadd_NaN_right fmul_NaN_right)
  qed
  have "angle (fst (mv lm d (r, out))) = angle r" unfolding mv by (simp add: move_pm1_eq)
  then show ?thesis using fin nonfin by blast
qed

text \<open>The hypotheses hold for the pose \<open>(1, -0, 0.5)\<close> and the correctly rounded library.\<close>

theorem move_zero_amended_witness:
  "libm_ok cr_libm \<and> is_finite (angle (Robot d1 (Fin True 0) d_half)) \<and>
   is_double (x (Robot d1 (Fin True 0) d_half)) \<and> is_double (y (Robot d1 (Fin True 0) d_half)) \<and>
   is_zero d0 \<and>
   x (fst (move_pm1 cr_libm d0 (Robot d1 (Fin True 0) d_half, []))) = d1 \<and>
   (y (fst (move_pm1 cr_libm d0 (Robot d1 (Fin True 0) d_half, []))) = Fin True 0 \<or>
    y (fst (move_pm1 cr_libm d0 (Robot d1 (Fin True 0) d_half, []))) = Fin False 0)"
  using move_zero_amended [of cr_libm move_pm1 "Robot d1 (Fin True 0) d_half" d0 "[]"] cr_libm_ok
  by (auto simp: Robot_def d0_def d1_def d_half_def round_mag_one round_mag_zero)

text \<open>
  C7, as stated for every pose and every finite \<open>d\<close>, fails. From \<open>Robot(1, 0, 0)\<close>
  with \<open>d = 2^54\<close> the first \<open>move\<close> rounds \<open>1 + 2^54\<close> to \<open>2^54\<close>, and after
  \<open>rotate(0)\<close> and \<open>move(-d)\<close> the coordinate \<open>x\<close> is 0, not 1. From
  \<open>Robot(DBL_MAX, 0, 0)\<close> with \<open>d = DBL_MAX\<close> the first \<open>move\<close> overflows and \<open>x\<close>
  ends as \<open>+Infinity\<close>.
\<close>

theorem round_trip_counterexample:
  "is_finite (Fin False (2 ^ 54)) \<and> is_double (Fin False (2 ^ 54)) \<and>
   x (Robot d1 d0 d0) = d1 \<and>
   x (fst (run_pm1 cr_libm [Move (Fin False (2 ^ 54)), Rotate d0, Move (fneg (Fin False (2 ^ 54)))]
        (Robot d1 d0 d0, []))) = d0 \<and>
   x (fst (run_p4 cr_libm [Move (Fin False (2 ^ 54)), Rotate d0, Move (fneg (Fin False (2 ^ 54)))]
        (Robot d1 d0 d0, []))) = d0 \<and>
   is_finite DBL_MAX \<and> is_double DBL_MAX \<and>
   x (fst (run_pm1 cr_libm [Move DBL_MAX, Rotate d0, Move (fneg DBL_MAX)]
        (Robot DBL_MAX d0 d0, []))) = Infty False"
proof -
  have a: "x (fst (run_pm1 cr_libm
      [Move (Fin False (2 ^ 54)), Rotate d0, Move (fneg (Fin False (2 ^ 54)))]
        (Robot d1 d0 d0, []))) = d0"
    by (simp add: move_pm1_eq rotate_pm1_eq Robot_def d0_def d1_def cr_libm_zero
        rnd_def sval_def Let_def absorb_eval round_mag_zero)
  have m: "fmul DBL_MAX (Fin False 1) = DBL_MAX" "fmul (fneg DBL_MAX) (Fin False 1) = fneg DBL_MAX"
    using DBL_MAX_fix by (simp_all add: DBL_MAX_def rnd_def)
  have n: "fadd (Infty False) (fneg DBL_MAX) = Infty False" by (simp add: DBL_MAX_def)
  have b: "x (fst (run_pm1 cr_libm [Move DBL_MAX, Rotate d0, Move (fneg DBL_MAX)]
        (Robot DBL_MAX d0 d0, []))) = Infty False"
    by (simp add: move_pm1_eq rotate_pm1_eq Robot_def d0_def cr_libm_zero
        sval_def Let_def m n DBL_MAX_twice)
  show ?thesis
    using a b DBL_MAX_double by (simp add: run_p4_pm1 Robot_def absorb_eval)
qed

text \<open>
  C7, amended. For a finite pose and a finite \<open>d\<close>, when neither \<open>move\<close> overflows,
  \<open>move(d)\<close>, \<open>rotate(0)\<close>, \<open>move(-d)\<close> bring each coordinate back to within the
  rounding errors of the two additions: \<open>x\<close> ends within
  \<open>(|x + p| + |x1 - p|) / 2^53 + 2^-1074\<close> of its first value, where \<open>p\<close> is the
  double product \<open>d * cos(angle)\<close> and \<open>x1\<close> the coordinate after the first \<open>move\<close>
  (for \<open>y\<close>, with \<open>sin\<close>); it ends at its first value when the first addition is exact.
  \<open>rotate(0)\<close> leaves the position alone and the heading too, up to the sign of a zero
  heading.
\<close>

theorem round_trip_amended:
  assumes "libm_ok lm"
    and "mv = move_pm1 \<or> mv = move_p4" and "rt = rotate_pm1 \<or> rt = rotate_p4"
    and "is_finite (x r)" "is_double (x r)" "is_finite (y r)" "is_double (y r)"
    and "is_finite (angle r)" "is_double (angle r)"
    and "is_finite d" "is_double d" "is_zero z"
    and "r1 = fst (mv lm d (r, out))"
    and "r3 = fst (mv lm (fneg d) (rt z (mv lm d (r, out))))"
    and "is_finite (x r1)" "is_finite (y r1)" "is_finite (x r3)" "is_finite (y r3)"
  shows "\<bar>valof (x r3) - valof (x r)\<bar>
           \<le> (\<bar>valof (x r) + valof (fmul d (lm_cos lm (angle r)))\<bar> +
               \<bar>valof (x r1) - valof (fmul d (lm_cos lm (angle r)))\<bar>) / 2 ^ 53 + 2 powi - 1074 \<and>
         \<bar>valof (y r3) - valof (y r)\<bar>
           \<le> (\<bar>valof (y r) + valof (fmul d (lm_sin lm (angle r)))\<bar> +
               \<bar>valof (y r1) - valof (fmul d (lm_sin lm (angle r)))\<bar>) / 2 ^ 53 + 2 powi - 1074 \<and>
         (valof (x r1) = valof (x r) + valof (fmul d (lm_cos lm (angle r))) \<longrightarrow>
            valof (x r3) = valof (x r)) \<and>
         (valof (y r1) = valof (y r) + valof (fmul d (lm_sin lm (angle r))) \<longrightarrow>
            valof (y r3) = valof (y r)) \<and>
         (angle r3 = angle r \<or> (angle r = Fin True 0 \<and> angle r3 = Fin False 0)) \<and>
         x (fst (rt z (mv lm d (r, out)))) = x r1 \<and> y (fst (rt z (mv lm d (r, out)))) = y r1"
proof -
  have mv: "mv = move_pm1" using assms(2) by (auto simp: fun_eq_iff move_p4_pm1)
  have rt: "rt = rotate_pm1" using assms(3) by (auto simp: fun_eq_iff rotate_p4_pm1)
  define px where "px = fmul d (lm_cos lm (angle r))"
  define py where "py = fmul d (lm_sin lm (angle r))"
  define qx where "qx = fmul (fneg d) (lm_cos lm (fadd (angle r) z))"
  define qy where "qy = fmul (fneg d) (lm_sin lm (fadd (angle r) z))"
  have lib: "is_finite (lm_cos lm (angle r))" "is_double (lm_cos lm (angle r))"
    "\<bar>valof (lm_cos lm (angle r))\<bar> \<le> 1"
    "is_finite (lm_sin lm (angle r))" "is_double (lm_sin lm (angle r))"
    "\<bar>valof (lm_sin lm (angle r))\<bar> \<le> 1"
    using assms(1,8) by (simp_all add: libm_ok_def)
  have px: "is_finite px" unfolding px_def using assms(10,11) lib(1-3) by (rule fmul_unit_finite)
  have py: "is_finite py" unfolding py_def using assms(10,11) lib(4-6) by (rule fmul_unit_finite)
  have qx: "is_finite qx" "valof qx = - valof px"
    using heading_plus_zero(1) [OF assms(1,8,9,12,10)] px
    by (simp_all add: qx_def px_def is_finite_fneg valof_fneg)
  have qy: "is_finite qy" "valof qy = - valof py"
    using heading_plus_zero(2,3) [OF assms(1,8,9,12,10)] py
    by (simp_all add: qy_def py_def)
  have r1: "x r1 = fadd (x r) px" "y r1 = fadd (y r) py"
    by (simp_all add: assms(13) mv move_pm1_eq px_def py_def)
  have r3: "x r3 = fadd (fadd (x r) px) qx" "y r3 = fadd (fadd (y r) py) qy"
    "angle r3 = fadd (angle r) z"
    by (simp_all add: assms(14) mv rt move_pm1_eq rotate_pm1_eq px_def py_def qx_def qy_def)
  have fx: "is_finite (fadd (x r) px)" "is_finite (fadd (fadd (x r) px) qx)"
    using assms(15,17) by (simp_all add: r1 r3)
  have fy: "is_finite (fadd (y r) py)" "is_finite (fadd (fadd (y r) py) qy)"
    using assms(16,18) by (simp_all add: r1 r3)
  obtain t where z: "z = Fin t 0" using assms(12) by (cases z) auto
  have ex: "\<bar>valof (x r3) - valof (x r)\<bar>
      \<le> (\<bar>valof (x r) + valof px\<bar> + \<bar>valof (x r1) - valof px\<bar>) / 2 ^ 53 + 2 powi - 1074"
    unfolding r1 r3 using assms(4,5) px qx fx by (rule out_and_back(1))
  have ey: "\<bar>valof (y r3) - valof (y r)\<bar>
      \<le> (\<bar>valof (y r) + valof py\<bar> + \<bar>valof (y r1) - valof py\<bar>) / 2 ^ 53 + 2 powi - 1074"
    unfolding r1 r3 using assms(6,7) py qy fy by (rule out_and_back(1))
  have bx: "valof (x r1) = valof (x r) + valof px \<longrightarrow> valof (x r3) = valof (x r)"
    unfolding r1 r3 using out_and_back(2) [OF assms(4,5) px qx fx] by blast
  have "valof (y r1) = valof (y r) + valof py \<longrightarrow> valof (y r3) = valof (y r)"
    unfolding r1 r3 using out_and_back(2) [OF assms(6,7) py qy fy] by blast
  moreover have "angle r3 = angle r \<or> (angle r = Fin True 0 \<and> angle r3 = Fin False 0)"
    unfolding r3 z by (rule fadd_zero_right [OF assms(9)])
  moreover have "x (fst (rt z (mv lm d (r, out)))) = x r1 \<and>
      y (fst (rt z (mv lm d (r, out)))) = y r1"
    by (simp add: assms(13) mv rt move_pm1_eq rotate_pm1_eq)
  ultimately show ?thesis using ex ey bx unfolding px_def py_def by blast
qed

text \<open>
  The hypotheses hold for \<open>Robot(1, 0, 0)\<close> and \<open>d = 1.0\<close>: \<open>x\<close> goes to 2 and back to
  1.
\<close>

theorem round_trip_amended_witness:
  "libm_ok cr_libm \<and> is_finite d1 \<and> is_double d1 \<and> is_zero d0 \<and>
   is_double d0 \<and> is_double (Fin False 2) \<and>
   x (fst (move_p4 cr_libm d1 (Robot d1 d0 d0, []))) = Fin False 2 \<and>
   valof (x (fst (move_p4 cr_libm (fneg d1)
     (rotate_p4 d0 (move_p4 cr_libm d1 (Robot d1 d0 d0, [])))))) = 1"
proof -
  define r where "r = Robot d1 d0 d0"
  define r1 where "r1 = Robot (Fin False 2) d0 d0"
  have e: "round_mag 2 = Some 2" by (simp add: round_eval)
  have a: "r1 = fst (move_p4 cr_libm d1 (r, []))"
    by (simp add: r_def r1_def move_p4_pm1 move_pm1_eq Robot_def d0_def d1_def cr_libm_zero
        rnd_def sval_def Let_def round_mag_one round_mag_zero e)
  have b: "r = fst (move_p4 cr_libm (fneg d1) (rotate_p4 d0 (move_p4 cr_libm d1 (r, []))))"
    by (simp add: r_def move_p4_pm1 rotate_p4_pm1 move_pm1_eq rotate_pm1_eq Robot_def d0_def
        d1_def cr_libm_zero rnd_def sval_def Let_def round_mag_one round_mag_zero e)
  have c: "fmul d1 (lm_cos cr_libm (angle r)) = d1"
    by (simp add: r_def Robot_def d0_def d1_def cr_libm_zero rnd_def round_mag_one)
  have f: "is_finite (x r)" "is_double (x r)" "is_finite (y r)" "is_double (y r)"
    "is_finite (angle r)" "is_double (angle r)" "is_finite d1" "is_double d1" "is_zero d0"
    "is_finite (x r1)" "is_finite (y r1)" "is_double d0" "is_double (Fin False 2)"
    by (simp_all add: r_def r1_def Robot_def d0_def d1_def round_mag_one round_mag_zero e)
  have "valof (x r1) = valof (x r) + valof (fmul d1 (lm_cos cr_libm (angle r))) \<longrightarrow>
        valof (x r) = valof (x r)"
    using round_trip_amended [OF cr_libm_ok disjI2 [OF refl] disjI2 [OF refl] f(1-9) a b
        f(10,11,1,3)] by blast
  then show ?thesis
    using cr_libm_ok f a [symmetric] b [symmetric]
    by (simp add: r_def r1_def Robot_def d1_def sval_def)
qed

text \<open>
  C8. With a library that has \<open>cos(0) = 1\<close> and \<open>sin(0) = 0\<close>, \<open>move(1.0)\<close> on
  \<open>Robot(0, 0, 0)\<close> gives \<open>x = 1\<close> and \<open>y = 0\<close> exactly and writes
  \<open>Robot moved to (1, 0)\<close>; \<open>rotate(0.5)\<close> then gives \<open>angle = 0.5\<close> and writes
  \<open>Robot rotated to 0.5 radians\<close>; this is what the entry point of project -1 does.
\<close>

theorem scenario_move_rotate:
  assumes "libm_ok lm"
  shows "move_pm1 lm d1 (Robot d0 d0 d0, out) =
           (Robot d1 d0 d0, out @ [''Robot moved to (1, 0)'']) \<and>
         rotate_pm1 d_half (Robot d1 d0 d0, out) =
           (Robot d1 d0 d_half, out @ [''Robot rotated to 0.5 radians'']) \<and>
         main_pm1 lm = (0, Robot d1 d0 d_half,
           [''Robot C++ Example'', ''Robot moved to (1, 0)'', ''Robot rotated to 0.5 radians''])"
proof -
  have c: "lm_cos lm d0 = d1" and s: "lm_sin lm d0 = d0"
    using assms by (simp_all add: libm_ok_def d0_def d1_def)
  have p: "fmul d1 d1 = d1" "fmul d1 d0 = d0"
    by (simp_all add: d0_def d1_def rnd_def round_mag_one round_mag_zero)
  have a: "fadd d0 d1 = d1" "fadd d0 d0 = d0" "fadd d0 d_half = d_half"
    by (simp_all add: d0_def d1_def d_half_def sval_def rnd_def round_mag_one round_mag_half)
  have m: "move_pm1 lm d1 (Robot d0 d0 d0, out') =
           (Robot d1 d0 d0, out' @ [''Robot moved to (1, 0)''])" for out'
    by (simp add: move_pm1_eq Robot_def c s p a show_one show_zero)
  have r: "rotate_pm1 d_half (Robot d1 d0 d0, out') =
           (Robot d1 d0 d_half, out' @ [''Robot rotated to 0.5 radians''])" for out'
    by (simp add: rotate_pm1_eq Robot_def a show_half)
  show ?thesis by (simp add: m r main_pm1_def Let_def)
qed

text \<open>The correctly rounded library is such a library.\<close>

theorem scenario_move_rotate_witness:
  "libm_ok cr_libm \<and>
   move_pm1 cr_libm d1 (Robot d0 d0 d0, []) = (Robot d1 d0 d0, [''Robot moved to (1, 0)'']) \<and>
   rotate_pm1 d_half (Robot d1 d0 d0, [''Robot moved to (1, 0)'']) =
     (Robot d1 d0 d_half, [''Robot moved to (1, 0)'', ''Robot rotated to 0.5 radians''])"
  using scenario_move_rotate [OF cr_libm_ok, of "[]"]
    scenario_move_rotate [OF cr_libm_ok, of "[''Robot moved to (1, 0)'']"] cr_libm_ok
  by simp

text \<open>
  C9. The classes of the two projects behave alike: from every pose and output, every
  sequence of calls gives the same pose and the same output lines in project -1 and in
  project 4.
\<close>

theorem robots_equivalent: "run_p4 lm cs st = run_pm1 lm cs st"
  by (induction cs arbitrary: st) (simp_all add: call_p4_pm1)

text \<open>
  C10, as stated, fails for the output line: the methods write through \<open>std::cout\<close>
  and so read the formatting state of that stream, which is neither the pose nor the
  argument. From the same pose \<open>(0, 0, 0)\<close> with the same argument \<open>1.375\<close>,
  \<open>rotate\<close> writes \<open>Robot rotated to 1.375 radians\<close> when the stream has its default
  precision 6 and \<open>Robot rotated to 1.4 radians\<close> after \<open>std::cout.precision(2)\<close>;
  \<open>move\<close> writes \<open>(1.375, 0)\<close> and \<open>(1.4, 0)\<close>. The resulting pose is the same.
\<close>

theorem precision_counterexample:
  "rotate_pm1_prec 6 (Fin False (11 / 8)) (Robot d0 d0 d0, []) =
     (Robot d0 d0 (Fin False (11 / 8)), [''Robot rotated to 1.375 radians'']) \<and>
   rotate_pm1_prec 2 (Fin False (11 / 8)) (Robot d0 d0 d0, []) =
     (Robot d0 d0 (Fin False (11 / 8)), [''Robot rotated to 1.4 radians'']) \<and>
   rotate_p4_prec 6 (Fin False (11 / 8)) (Robot d0 d0 d0, []) =
     (Robot d0 d0 (Fin False (11 / 8)), [''Robot rotated to 1.375 radians'']) \<and>
   rotate_p4_prec 2 (Fin False (11 / 8)) (Robot d0 d0 d0, []) =
     (Robot d0 d0 (Fin False (11 / 8)), [''Robot rotated to 1.4 radians'']) \<and>
   move_pm1_prec 6 cr_libm (Fin False (11 / 8)) (Robot d0 d0 d0, []) =
     (Robot (Fin False (11 / 8)) d0 d0, [''Robot moved to (1.375, 0)'']) \<and>
   move_pm1_prec 2 cr_libm (Fin False (11 / 8)) (Robot d0 d0 d0, []) =
     (Robot (Fin False (11 / 8)) d0 d0, [''Robot moved to (1.4, 0)'']) \<and>
   ''Robot rotated to 1.375 radians'' \<noteq> ''Robot rotated to 1.4 radians'' \<and>
   ''Robot moved to (1.375, 0)'' \<noteq> ''Robot moved to (1.4, 0)''"
proof -
  show ?thesis
    by (simp add: rotate_p4_prec_pm1 rotate_pm1_prec_eq move_pm1_prec_eq Robot_def d0_def
        cr_libm_zero sval_def Let_def rnd_def round_mag_11_8 round_mag_zero show_mag_prec_zero show_11_8)
qed

text \<open>
  C10, amended. With the stream's format flags, width, fill and locale and the
  floating-point environment at their defaults (neither program changes them): the pose
  after \<open>move\<close> or \<open>rotate\<close> depends on the pose before and the argument only, and not
  on the precision of \<open>std::cout\<close> or on what was written before; the line written
  depends on the pose, the argument and the precision of \<open>std::cout\<close>, and not on what
  was written before. At the default precision 6, the state of every call in the two
  programs, equal poses and arguments therefore give equal poses and equal lines (the
  methods of the other statements are the methods at that precision).
\<close>

theorem calls_determined:
  "move_pm1_prec p lm d (r, out) =
     (r\<lparr>x := fadd (x r) (fmul d (lm_cos lm (angle r))),
        y := fadd (y r) (fmul d (lm_sin lm (angle r)))\<rparr>,
      out @ [''Robot moved to ('' @
               show_double_prec p (fadd (x r) (fmul d (lm_cos lm (angle r)))) @ '', '' @
               show_double_prec p (fadd (y r) (fmul d (lm_sin lm (angle r)))) @ '')'']) \<and>
   rotate_pm1_prec p c (r, out) =
     (r\<lparr>angle := fadd (angle r) c\<rparr>,
      out @ [''Robot rotated to '' @ show_double_prec p (fadd (angle r) c) @ '' radians'']) \<and>
   move_p4_prec p lm d (r, out) = move_pm1_prec p lm d (r, out) \<and>
   rotate_p4_prec p c (r, out) = rotate_pm1_prec p c (r, out) \<and>
   move_pm1 lm d (r, out) = move_pm1_prec 6 lm d (r, out) \<and>
   rotate_pm1 c (r, out) = rotate_pm1_prec 6 c (r, out) \<and>
   move_p4 lm d (r, out) = move_p4_prec 6 lm d (r, out) \<and>
   rotate_p4 c (r, out) = rotate_p4_prec 6 c (r, out) \<and>
   fst (move_pm1_prec p lm d (r, out1)) = fst (move_pm1_prec q lm d (r, out2)) \<and>
   fst (rotate_pm1_prec p c (r, out1)) = fst (rotate_pm1_prec q c (r, out2)) \<and>
   snd (move_pm1_prec p lm d (r, out1)) = out1 @ [last (snd (move_pm1_prec p lm d (r, out2)))] \<and>
   snd (rotate_pm1_prec p c (r, out1)) = out1 @ [last (snd (rotate_pm1_prec p c (r, out2)))]"
  by (simp add: move_p4_prec_pm1 rotate_p4_prec_pm1 move_pm1_prec_eq rotate_pm1_prec_eq
      move_p4_pm1 rotate_p4_pm1 move_pm1_eq rotate_pm1_eq show_double_prec_default)

end
